theory Spec2Isabelle
  imports Complex_Main "HOL-Library.Product_Lexorder" "HOL-Library.Multiset"
begin

section \<open>JavaScript values used by the seat optimizer\<close>

text \<open>
  The optimizer (\<^verbatim>\<open>src/public/optimizer.js\<close>, browser; \<^verbatim>\<open>src/unnamed/part_000\<close>, server) computes
  with JavaScript numbers. Integral quantities (rows, columns, seat positions, indices) are \<open>int\<close>
  or \<open>nat\<close>; scores are \<open>real\<close> (rounding is not modelled). The weights and the fitness total are
  the only numbers that reach an unguarded division, so they are \<open>jsnum\<close>: a real, an infinity or
  NaN, with the IEEE results of \<open>+\<close>, \<open>-\<close>, \<open>*\<close>, \<open>/\<close> and the comparisons written out (the sign of
  zero is not modelled: every zero is \<open>+0\<close>).
\<close>

datatype jsnum = Num real | PosInf | NegInf | NaN

fun js_neg :: "jsnum \<Rightarrow> jsnum" where
  "js_neg (Num a) = Num (- a)"
| "js_neg PosInf = NegInf"
| "js_neg NegInf = PosInf"
| "js_neg NaN = NaN"

fun js_add :: "jsnum \<Rightarrow> jsnum \<Rightarrow> jsnum" where
  "js_add NaN y = NaN"
| "js_add x NaN = NaN"
| "js_add PosInf NegInf = NaN"
| "js_add NegInf PosInf = NaN"
| "js_add PosInf y = PosInf"
| "js_add x PosInf = PosInf"
| "js_add NegInf y = NegInf"
| "js_add x NegInf = NegInf"
| "js_add (Num a) (Num b) = Num (a + b)"

definition js_sub :: "jsnum \<Rightarrow> jsnum \<Rightarrow> jsnum" where
  "js_sub x y = js_add x (js_neg y)"

fun js_sign :: "jsnum \<Rightarrow> int" where
  "js_sign (Num a) = (if a < 0 then - 1 else if a = 0 then 0 else 1)"
| "js_sign PosInf = 1"
| "js_sign NegInf = - 1"
| "js_sign NaN = 0"

fun js_mul :: "jsnum \<Rightarrow> jsnum \<Rightarrow> jsnum" where
  "js_mul NaN y = NaN"
| "js_mul x NaN = NaN"
| "js_mul (Num a) (Num b) = Num (a * b)"
| "js_mul x y =
     (if js_sign x * js_sign y = 0 then NaN
      else if js_sign x * js_sign y > 0 then PosInf else NegInf)"

fun js_div :: "jsnum \<Rightarrow> jsnum \<Rightarrow> jsnum" where
  "js_div NaN y = NaN"
| "js_div x NaN = NaN"
| "js_div (Num a) (Num b) =
     (if b = 0 then (if a = 0 then NaN else if a > 0 then PosInf else NegInf)
      else Num (a / b))"
| "js_div (Num a) y = Num 0"
| "js_div x (Num b) = (if js_sign x * (if b < 0 then - 1 else 1) > 0 then PosInf else NegInf)"
| "js_div x y = NaN"

fun js_gt :: "jsnum \<Rightarrow> jsnum \<Rightarrow> bool" where
  "js_gt NaN y = False"
| "js_gt x NaN = False"
| "js_gt (Num a) (Num b) = (a > b)"
| "js_gt PosInf y = (y \<noteq> PosInf)"
| "js_gt x PosInf = False"
| "js_gt x NegInf = (x \<noteq> NegInf)"
| "js_gt NegInf y = False"

definition js_lt :: "jsnum \<Rightarrow> jsnum \<Rightarrow> bool" where
  "js_lt x y = js_gt y x"

definition js_ge :: "jsnum \<Rightarrow> jsnum \<Rightarrow> bool" where
  "js_ge x y = (x \<noteq> NaN \<and> y \<noteq> NaN \<and> \<not> js_gt y x)"

fun js_exp :: "jsnum \<Rightarrow> jsnum" where
  "js_exp (Num a) = Num (exp a)"
| "js_exp PosInf = PosInf"
| "js_exp NegInf = Num 0"
| "js_exp NaN = NaN"

text \<open>
  A JavaScript string is its list of UTF-16 code units. \<open>natToString\<close> is the decimal text of a
  non-negative integer inside a template literal, \<open>fromCharCode\<close> is \<^verbatim>\<open>String.fromCharCode\<close>.
\<close>

type_synonym jsstring = "nat list"

fun natToString :: "nat \<Rightarrow> jsstring" where
  "natToString n = (if n < 10 then [48 + n] else natToString (n div 10) @ [48 + n mod 10])"

declare natToString.simps [simp del]

definition numToString :: "int \<Rightarrow> jsstring" where
  "numToString i = (if i < 0 then 45 # natToString (nat (- i)) else natToString (nat i))"

definition fromCharCode :: "int \<Rightarrow> jsstring" where
  "fromCharCode n = [nat (n mod 65536)]"

text \<open>
  The exception a JavaScript engine raises when a property of \<^verbatim>\<open>undefined\<close> or \<^verbatim>\<open>null\<close> is read or
  \<^verbatim>\<open>null\<close> is spread. The optimizer's own \<^verbatim>\<open>throw new Error(...)\<close> is \<open>ConfigError\<close> below.
\<close>

datatype exn = TypeError

section \<open>Data model\<close>

record seat =
  seat_id :: jsstring
  row :: int
  col :: int
  isVip :: bool
  position :: int
  distanceToStage :: real

record venue =
  rows :: int
  cols :: int
  vipRows :: int
  totalSeats :: int
  seats :: "seat list"

text \<open>An attendee as the caller passes it: every field may be missing.\<close>

datatype ident = IdNum int | IdStr string

record raw_attendee =
  raw_id :: "ident option"
  raw_type :: string
  raw_group :: "string option"
  raw_preference :: string
  raw_priority :: "real option"

record attendee =
  att_id :: ident
  index :: nat
  type :: string
  group :: "string option"
  preference :: string
  priority :: real

text \<open>
  A chromosome is a JavaScript array of seat positions; a cell is \<open>None\<close> where the array holds
  \<^verbatim>\<open>undefined\<close> (a hole reads as \<^verbatim>\<open>undefined\<close> too). Reading past the end gives \<^verbatim>\<open>undefined\<close>.
\<close>

type_synonym cell = "int option"
type_synonym chromosome = "cell list"

definition chromGet :: "chromosome \<Rightarrow> nat \<Rightarrow> cell" where
  "chromGet c i = (if i < length c then c ! i else None)"

record weights =
  friendProximityW :: jsnum
  vipPlacementW :: jsnum
  groupCohesionW :: jsnum
  stageDistanceW :: jsnum

record fitness =
  total :: jsnum
  friendProximity :: real
  vipPlacement :: real
  groupCohesion :: real
  stageDistance :: real

text \<open>
  \<^verbatim>\<open>this.bestFitness\<close> starts as the object \<^verbatim>\<open>{ total: 0 }\<close>, which has no sub-scores; afterwards it
  always holds a record returned by \<^verbatim>\<open>calculateFitness\<close>. Only its \<^verbatim>\<open>total\<close> is ever read.
\<close>

datatype best_fitness = InitialFitness | Fitness fitness

fun bestTotal :: "best_fitness \<Rightarrow> jsnum" where
  "bestTotal InitialFitness = Num 0"
| "bestTotal (Fitness f) = total f"

record config =
  populationSize :: int
  generations :: int
  mutationRate :: real
  crossoverRate :: real
  elitismCount :: int
  tournamentSize :: int
  initialTemp :: real
  coolingRate :: real
  minTemp :: real
  mode :: "string option"
  weights :: weights

record optimizer =
  config :: config
  venue :: "venue option"
  attendees :: "attendee list"
  groups :: "(string \<times> nat list) list"
  friendships :: "(nat \<times> nat list) list"
  currentGeneration :: int
  bestSolution :: "chromosome option"
  bestFitness :: best_fitness
  fitnessHistory :: "jsnum list"
  isRunning :: bool

section \<open>Constructor, setVenue, setAttendees, updateWeights, setMode\<close>

record options =
  opt_populationSize :: "int option"
  opt_generations :: "int option"
  opt_mutationRate :: "real option"
  opt_crossoverRate :: "real option"
  opt_elitismCount :: "int option"
  opt_tournamentSize :: "int option"
  opt_initialTemp :: "real option"
  opt_coolingRate :: "real option"
  opt_minTemp :: "real option"
  opt_mode :: "string option"
  opt_friendWeight :: "real option"
  opt_vipWeight :: "real option"
  opt_groupWeight :: "real option"
  opt_distanceWeight :: "real option"

text \<open>\<^verbatim>\<open>x || d\<close> on a number: \<^verbatim>\<open>undefined\<close> and \<open>0\<close> are falsy.\<close>

definition orDefault :: "'a::zero option \<Rightarrow> 'a \<Rightarrow> 'a" where
  "orDefault x d = (case x of None \<Rightarrow> d | Some y \<Rightarrow> if y = 0 then d else y)"

text \<open>
  The browser constructor. It does not read \<^verbatim>\<open>config.mode\<close> (the mode is set by \<^verbatim>\<open>setMode\<close>); the
  server constructor is the same except that it stores \<^verbatim>\<open>config.mode || 'balanced'\<close>.
\<close>

definition newWeights :: "options \<Rightarrow> weights" where
  "newWeights cfg =
     \<lparr>friendProximityW = Num (orDefault (opt_friendWeight cfg) 30 / 100),
      vipPlacementW = Num (orDefault (opt_vipWeight cfg) 25 / 100),
      groupCohesionW = Num (orDefault (opt_groupWeight cfg) 25 / 100),
      stageDistanceW = Num (orDefault (opt_distanceWeight cfg) 20 / 100)\<rparr>"

definition newConfig :: "options \<Rightarrow> string option \<Rightarrow> config" where
  "newConfig cfg m =
     \<lparr>populationSize = orDefault (opt_populationSize cfg) 100,
      generations = orDefault (opt_generations cfg) 200,
      mutationRate = orDefault (opt_mutationRate cfg) 0.15,
      crossoverRate = orDefault (opt_crossoverRate cfg) 0.85,
      elitismCount = orDefault (opt_elitismCount cfg) 5,
      tournamentSize = orDefault (opt_tournamentSize cfg) 5,
      initialTemp = orDefault (opt_initialTemp cfg) 1000,
      coolingRate = orDefault (opt_coolingRate cfg) 0.995,
      minTemp = orDefault (opt_minTemp cfg) 1,
      mode = m,
      weights = newWeights cfg\<rparr>"

definition newOptimizer :: "config \<Rightarrow> optimizer" where
  "newOptimizer c =
     \<lparr>config = c, venue = None, attendees = [], groups = [], friendships = [],
      currentGeneration = 0, bestSolution = None, bestFitness = InitialFitness,
      fitnessHistory = [], isRunning = False\<rparr>"

definition SeatOptimizer :: "options \<Rightarrow> optimizer" where
  "SeatOptimizer cfg = newOptimizer (newConfig cfg None)"

definition SeatOptimizer_server :: "options \<Rightarrow> optimizer" where
  "SeatOptimizer_server cfg =
     newOptimizer (newConfig cfg
       (Some (case opt_mode cfg of None \<Rightarrow> ''balanced'' | Some m \<Rightarrow> if m = [] then ''balanced'' else m)))"

definition mkSeat :: "int \<Rightarrow> int \<Rightarrow> int \<Rightarrow> int \<Rightarrow> seat" where
  "mkSeat C V r c =
     \<lparr>seat_id = numToString r @ [45] @ numToString c,
      row = r,
      col = c,
      isVip = (r < V),
      position = r * C + c,
      distanceToStage = sqrt ((real_of_int r + 1)\<^sup>2 + (real_of_int c - real_of_int C / 2)\<^sup>2)\<rparr>"

definition mkVenue :: "int \<Rightarrow> int \<Rightarrow> int \<Rightarrow> venue" where
  "mkVenue R C V =
     \<lparr>rows = R, cols = C, vipRows = V, totalSeats = R * C,
      seats = concat (map (\<lambda>r. map (\<lambda>c. mkSeat C V (int r) (int c)) [0..<nat C]) [0..<nat R])\<rparr>"

definition setVenue :: "optimizer \<Rightarrow> int \<Rightarrow> int \<Rightarrow> int \<Rightarrow> optimizer" where
  "setVenue st R C V = st\<lparr>venue := Some (mkVenue R C V)\<rparr>"

definition mkAttendee :: "nat \<Rightarrow> raw_attendee \<Rightarrow> attendee" where
  "mkAttendee idx a =
     \<lparr>att_id = (case raw_id a of
                  None \<Rightarrow> IdNum (int idx)
                | Some (IdNum n) \<Rightarrow> if n = 0 then IdNum (int idx) else IdNum n
                | Some (IdStr s) \<Rightarrow> if s = [] then IdNum (int idx) else IdStr s),
      index = idx,
      type = raw_type a,
      group = raw_group a,
      preference = raw_preference a,
      priority = orDefault (raw_priority a) 5\<rparr>"

text \<open>
  \<^verbatim>\<open>this.groups\<close> is a \<^verbatim>\<open>Map\<close> from group tag to the array of member indices and \<^verbatim>\<open>this.friendships\<close> a
  \<^verbatim>\<open>Map\<close> from index to a \<^verbatim>\<open>Set\<close> of indices. Both iterate in insertion order, so they are association
  lists (and the set a duplicate-free list) in insertion order.
\<close>

fun groupsPush :: "(string \<times> nat list) list \<Rightarrow> string \<Rightarrow> nat \<Rightarrow> (string \<times> nat list) list" where
  "groupsPush [] g i = [(g, [i])]"
| "groupsPush ((k, ms) # rest) g i =
     (if k = g then (k, ms @ [i]) # rest else (k, ms) # groupsPush rest g i)"

definition truthyGroup :: "attendee \<Rightarrow> string option" where
  "truthyGroup a = (case group a of None \<Rightarrow> None | Some g \<Rightarrow> if g = [] then None else Some g)"

definition buildGroups :: "attendee list \<Rightarrow> (string \<times> nat list) list" where
  "buildGroups as =
     foldl (\<lambda>gs a. case truthyGroup a of None \<Rightarrow> gs | Some g \<Rightarrow> groupsPush gs g (index a)) [] as"

definition setAdd :: "nat list \<Rightarrow> nat \<Rightarrow> nat list" where
  "setAdd s x = (if x \<in> set s then s else s @ [x])"

fun friendsUpdate :: "(nat \<times> nat list) list \<Rightarrow> nat \<Rightarrow> (nat list \<Rightarrow> nat list) \<Rightarrow> (nat \<times> nat list) list" where
  "friendsUpdate [] k f = [(k, f [])]"
| "friendsUpdate ((k', s) # rest) k f =
     (if k' = k then (k', f s) # rest else (k', s) # friendsUpdate rest k f)"

definition addFriendsOf :: "nat list \<Rightarrow> (nat \<times> nat list) list \<Rightarrow> nat \<Rightarrow> (nat \<times> nat list) list" where
  "addFriendsOf members fs m1 =
     friendsUpdate fs m1 (\<lambda>s. foldl (\<lambda>s m2. if m1 \<noteq> m2 then setAdd s m2 else s) s members)"

definition buildFriendships :: "(string \<times> nat list) list \<Rightarrow> (nat \<times> nat list) list" where
  "buildFriendships gs = foldl (\<lambda>fs (g, members). foldl (addFriendsOf members) fs members) [] gs"

definition setAttendees :: "optimizer \<Rightarrow> raw_attendee list \<Rightarrow> optimizer" where
  "setAttendees st as =
     (let atts = map (\<lambda>(idx, a). mkAttendee idx a) (enumerate 0 as);
          gs = buildGroups atts
      in st\<lparr>attendees := atts, groups := gs, friendships := buildFriendships gs\<rparr>)"

definition updateWeights :: "optimizer \<Rightarrow> real \<Rightarrow> real \<Rightarrow> real \<Rightarrow> real \<Rightarrow> optimizer" where
  "updateWeights st friend vip grp distance =
     (let tot = Num (friend + vip + grp + distance)
      in st\<lparr>config := (config st)\<lparr>weights :=
            \<lparr>friendProximityW = js_div (Num friend) tot,
             vipPlacementW = js_div (Num vip) tot,
             groupCohesionW = js_div (Num grp) tot,
             stageDistanceW = js_div (Num distance) tot\<rparr>\<rparr>\<rparr>)"

definition setMode :: "optimizer \<Rightarrow> string \<Rightarrow> optimizer" where
  "setMode st m = st\<lparr>config := (config st)\<lparr>mode := Some m\<rparr>\<rparr>"

section \<open>Fitness\<close>

definition seatAt :: "venue \<Rightarrow> cell \<Rightarrow> seat option" where
  "seatAt v x =
     (case x of
        None \<Rightarrow> None
      | Some p \<Rightarrow> if 0 \<le> p \<and> p < int (length (seats v)) then Some (seats v ! nat p) else None)"

definition getSeatDistance :: "seat option \<Rightarrow> seat option \<Rightarrow> exn + int" where
  "getSeatDistance seat1 seat2 =
     (case (seat1, seat2) of
        (Some a, Some b) \<Rightarrow> Inr (\<bar>row a - row b\<bar> + \<bar>col a - col b\<bar>)
      | _ \<Rightarrow> Inl TypeError)"

definition friendPoints :: "int \<Rightarrow> real" where
  "friendPoints distance =
     (if distance = 1 then 10
      else if distance = 2 then 7
      else if distance \<le> 4 then 4
      else max 0 (2 - real_of_int distance * 0.1))"

fun friendsInner :: "venue \<Rightarrow> chromosome \<Rightarrow> seat option \<Rightarrow> nat list \<Rightarrow> real \<times> real \<Rightarrow> exn + real \<times> real" where
  "friendsInner v c attendeeSeat [] acc = Inr acc"
| "friendsInner v c attendeeSeat (friendIdx # fs) acc =
     (case getSeatDistance attendeeSeat (seatAt v (chromGet c friendIdx)) of
        Inl e \<Rightarrow> Inl e
      | Inr distance \<Rightarrow>
          friendsInner v c attendeeSeat fs (fst acc + friendPoints distance, snd acc + 10))"

fun friendsOuter :: "venue \<Rightarrow> chromosome \<Rightarrow> (nat \<times> nat list) list \<Rightarrow> real \<times> real \<Rightarrow> exn + real \<times> real" where
  "friendsOuter v c [] acc = Inr acc"
| "friendsOuter v c ((attendeeIdx, friends) # rest) acc =
     (case friendsInner v c (seatAt v (chromGet c attendeeIdx)) friends acc of
        Inl e \<Rightarrow> Inl e
      | Inr acc' \<Rightarrow> friendsOuter v c rest acc')"

definition maxVenueDist :: "venue \<Rightarrow> real" where
  "maxVenueDist v = sqrt ((real_of_int (rows v) + 1)\<^sup>2 + (real_of_int (cols v) / 2)\<^sup>2)"

record att_acc =
  vipPlacementScore :: real
  maxVipScore :: real
  stageDistanceScore :: real
  maxDistanceScore :: real

definition attendeeStep :: "venue \<Rightarrow> attendee \<Rightarrow> seat \<Rightarrow> att_acc \<Rightarrow> att_acc" where
  "attendeeStep v a s acc =
     (let priorityFactor = priority a / 10;
          maxPointsForPerson = 10 * priorityFactor;
          distRatio = distanceToStage s / maxVenueDist v;
          personScore = max 0 ((1 - distRatio) * maxPointsForPerson)
      in \<lparr>vipPlacementScore =
             (if type a = ''vip''
              then vipPlacementScore acc
                   + (if isVip s then 20 else max 0 (10 - real_of_int (row s) * 2))
              else vipPlacementScore acc),
           maxVipScore = (if type a = ''vip'' then maxVipScore acc + 20 else maxVipScore acc),
           stageDistanceScore = stageDistanceScore acc + personScore,
           maxDistanceScore = maxDistanceScore acc + maxPointsForPerson\<rparr>)"

fun attendeesLoop :: "venue \<Rightarrow> chromosome \<Rightarrow> (nat \<times> attendee) list \<Rightarrow> att_acc \<Rightarrow> exn + att_acc" where
  "attendeesLoop v c [] acc = Inr acc"
| "attendeesLoop v c ((idx, a) # rest) acc =
     (case seatAt v (chromGet c idx) of
        None \<Rightarrow> Inl TypeError
      | Some s \<Rightarrow> attendeesLoop v c rest (attendeeStep v a s acc))"

text \<open>
  \<^verbatim>\<open>seats.sort((a, b) => a.row - b.row || a.col - b.col)\<close>: a stable sort by (row, col); the array
  sort moves \<^verbatim>\<open>undefined\<close> entries to the end without calling the comparator.
\<close>

definition sortSeats :: "seat option list \<Rightarrow> seat option list" where
  "sortSeats xs =
     map Some (sort_key (\<lambda>s. (row s, col s)) (List.map_filter (\<lambda>x. x) xs))
     @ filter (\<lambda>x. x = None) xs"

definition pairPoints :: "int \<Rightarrow> int" where
  "pairPoints d = (if d = 1 then 2 else if d \<le> 2 then 1 else 0)"

fun pairsInner :: "seat option \<Rightarrow> seat option list \<Rightarrow> int \<Rightarrow> exn + int" where
  "pairsInner s [] cohesionPoints = Inr cohesionPoints"
| "pairsInner s (t # ts) cohesionPoints =
     (case getSeatDistance s t of
        Inl e \<Rightarrow> Inl e
      | Inr d \<Rightarrow> pairsInner s ts (cohesionPoints + pairPoints d))"

fun pairsOuter :: "seat option list \<Rightarrow> int \<Rightarrow> exn + int" where
  "pairsOuter [] cohesionPoints = Inr cohesionPoints"
| "pairsOuter (s # ss) cohesionPoints =
     (case pairsInner s ss cohesionPoints of
        Inl e \<Rightarrow> Inl e
      | Inr cohesionPoints' \<Rightarrow> pairsOuter ss cohesionPoints')"

definition groupScore :: "nat \<Rightarrow> int \<Rightarrow> real" where
  "groupScore m cohesionPoints =
     (let maxPossible = (real m - 1) * 2
      in min (real m * 10) (real_of_int cohesionPoints / max 1 maxPossible * real m * 10))"

fun groupsLoop :: "venue \<Rightarrow> chromosome \<Rightarrow> (string \<times> nat list) list \<Rightarrow> real \<times> real \<Rightarrow> exn + real \<times> real" where
  "groupsLoop v c [] acc = Inr acc"
| "groupsLoop v c ((g, members) # rest) acc =
     (if length members \<le> 1 then groupsLoop v c rest acc
      else case pairsOuter (sortSeats (map (\<lambda>idx. seatAt v (chromGet c idx)) members)) 0 of
             Inl e \<Rightarrow> Inl e
           | Inr cohesionPoints \<Rightarrow>
               groupsLoop v c rest
                 (fst acc + groupScore (length members) cohesionPoints,
                  snd acc + real (length members) * 10))"

definition normalize :: "real \<Rightarrow> real \<Rightarrow> real" where
  "normalize score maxScore = (if maxScore > 0 then score / maxScore else 1)"

definition weightedTotal :: "weights \<Rightarrow> real \<Rightarrow> real \<Rightarrow> real \<Rightarrow> real \<Rightarrow> jsnum" where
  "weightedTotal w normFriend normVip normGroup normDistance =
     (let totalWeight =
            js_add (js_add (js_add (friendProximityW w) (vipPlacementW w)) (groupCohesionW w))
              (stageDistanceW w)
      in js_div
           (js_add
              (js_add
                 (js_add (js_mul (Num normFriend) (friendProximityW w))
                    (js_mul (Num normVip) (vipPlacementW w)))
                 (js_mul (Num normGroup) (groupCohesionW w)))
              (js_mul (Num normDistance) (stageDistanceW w)))
           totalWeight)"

definition emptyAcc :: att_acc where
  "emptyAcc = \<lparr>vipPlacementScore = 0, maxVipScore = 0, stageDistanceScore = 0, maxDistanceScore = 0\<rparr>"

text \<open>
  \<^verbatim>\<open>calculateFitness\<close> of the browser file. With \<^verbatim>\<open>this.venue\<close> still \<^verbatim>\<open>null\<close> the first read of
  \<^verbatim>\<open>this.venue.seats\<close> or \<^verbatim>\<open>this.venue.rows\<close> raises.
\<close>

definition calculateFitness :: "optimizer \<Rightarrow> chromosome \<Rightarrow> exn + fitness" where
  "calculateFitness st chromosome =
     (case venue st of
        None \<Rightarrow> Inl TypeError
      | Some v \<Rightarrow>
         (case friendsOuter v chromosome (friendships st) (0, 0) of
            Inl e \<Rightarrow> Inl e
          | Inr fr \<Rightarrow>
             (case attendeesLoop v chromosome (enumerate 0 (attendees st)) emptyAcc of
                Inl e \<Rightarrow> Inl e
              | Inr acc \<Rightarrow>
                 (case groupsLoop v chromosome (groups st) (0, 0) of
                    Inl e \<Rightarrow> Inl e
                  | Inr gr \<Rightarrow>
                     (let normFriend = normalize (fst fr) (snd fr);
                          normVip = normalize (vipPlacementScore acc) (maxVipScore acc);
                          normGroup = normalize (fst gr) (snd gr);
                          normDistance = normalize (stageDistanceScore acc) (maxDistanceScore acc)
                      in Inr \<lparr>total = weightedTotal (weights (config st)) normFriend normVip
                                         normGroup normDistance,
                              friendProximity = normFriend,
                              vipPlacement = normVip,
                              groupCohesion = normGroup,
                              stageDistance = normDistance\<rparr>)))))"

text \<open>
  \<^verbatim>\<open>calculateFitness\<close> and \<^verbatim>\<open>getSeatDistance\<close> of the server file, transcribed from its own text.
\<close>

definition getSeatDistance_server :: "seat option \<Rightarrow> seat option \<Rightarrow> exn + int" where
  "getSeatDistance_server seat1 seat2 =
     (case seat1 of
        None \<Rightarrow> Inl TypeError
      | Some a \<Rightarrow>
         (case seat2 of
            None \<Rightarrow> Inl TypeError
          | Some b \<Rightarrow> Inr (\<bar>row a - row b\<bar> + \<bar>col a - col b\<bar>)))"

fun friendsInner_server :: "venue \<Rightarrow> chromosome \<Rightarrow> seat option \<Rightarrow> nat list \<Rightarrow> real \<times> real \<Rightarrow> exn + real \<times> real" where
  "friendsInner_server v c attendeeSeat [] (friendProximityScore, maxFriendScore) =
     Inr (friendProximityScore, maxFriendScore)"
| "friendsInner_server v c attendeeSeat (friendIdx # fs) (friendProximityScore, maxFriendScore) =
     (case getSeatDistance_server attendeeSeat (seatAt v (chromGet c friendIdx)) of
        Inl e \<Rightarrow> Inl e
      | Inr distance \<Rightarrow>
          friendsInner_server v c attendeeSeat fs
            (if distance = 1 then friendProximityScore + 10
             else if distance = 2 then friendProximityScore + 7
             else if distance \<le> 4 then friendProximityScore + 4
             else friendProximityScore + max 0 (2 - real_of_int distance * 0.1),
             maxFriendScore + 10))"

fun friendsOuter_server :: "venue \<Rightarrow> chromosome \<Rightarrow> (nat \<times> nat list) list \<Rightarrow> real \<times> real \<Rightarrow> exn + real \<times> real" where
  "friendsOuter_server v c [] acc = Inr acc"
| "friendsOuter_server v c ((attendeeIdx, friends) # rest) acc =
     (case friendsInner_server v c (seatAt v (chromGet c attendeeIdx)) friends acc of
        Inl e \<Rightarrow> Inl e
      | Inr acc' \<Rightarrow> friendsOuter_server v c rest acc')"

fun attendeesLoop_server :: "venue \<Rightarrow> chromosome \<Rightarrow> real \<Rightarrow> (nat \<times> attendee) list \<Rightarrow> att_acc \<Rightarrow> exn + att_acc" where
  "attendeesLoop_server v c mvd [] acc = Inr acc"
| "attendeesLoop_server v c mvd ((idx, a) # rest) acc =
     (case seatAt v (chromGet c idx) of
        None \<Rightarrow> Inl TypeError
      | Some s \<Rightarrow>
          (let acc1 =
                 (if type a = ''vip''
                  then acc\<lparr>maxVipScore := maxVipScore acc + 20,
                           vipPlacementScore :=
                             (if isVip s then vipPlacementScore acc + 20
                              else vipPlacementScore acc + max 0 (10 - real_of_int (row s) * 2))\<rparr>
                  else acc);
               priorityFactor = priority a / 10;
               maxPointsForPerson = 10 * priorityFactor;
               acc2 = acc1\<lparr>maxDistanceScore := maxDistanceScore acc1 + maxPointsForPerson\<rparr>;
               distRatio = distanceToStage s / mvd;
               personScore = max 0 ((1 - distRatio) * maxPointsForPerson)
           in attendeesLoop_server v c mvd rest
                (acc2\<lparr>stageDistanceScore := stageDistanceScore acc2 + personScore\<rparr>)))"

fun pairsInner_server :: "seat option \<Rightarrow> seat option list \<Rightarrow> int \<Rightarrow> exn + int" where
  "pairsInner_server s [] cohesionPoints = Inr cohesionPoints"
| "pairsInner_server s (t # ts) cohesionPoints =
     (case getSeatDistance_server s t of
        Inl e \<Rightarrow> Inl e
      | Inr d \<Rightarrow>
          pairsInner_server s ts
            (if d = 1 then cohesionPoints + 2
             else if d \<le> 2 then cohesionPoints + 1
             else cohesionPoints))"

fun pairsOuter_server :: "seat option list \<Rightarrow> int \<Rightarrow> exn + int" where
  "pairsOuter_server [] cohesionPoints = Inr cohesionPoints"
| "pairsOuter_server (s # ss) cohesionPoints =
     (case pairsInner_server s ss cohesionPoints of
        Inl e \<Rightarrow> Inl e
      | Inr cohesionPoints' \<Rightarrow> pairsOuter_server ss cohesionPoints')"

fun groupsLoop_server :: "venue \<Rightarrow> chromosome \<Rightarrow> (string \<times> nat list) list \<Rightarrow> real \<times> real \<Rightarrow> exn + real \<times> real" where
  "groupsLoop_server v c [] acc = Inr acc"
| "groupsLoop_server v c ((g, members) # rest) (groupCohesionScore, maxGroupScore) =
     (if length members \<le> 1 then groupsLoop_server v c rest (groupCohesionScore, maxGroupScore)
      else case pairsOuter_server (sortSeats (map (\<lambda>idx. seatAt v (chromGet c idx)) members)) 0 of
             Inl e \<Rightarrow> Inl e
           | Inr cohesionPoints \<Rightarrow>
               (let maxPossible = (real (length members) - 1) * 2
                in groupsLoop_server v c rest
                     (groupCohesionScore
                        + min (real (length members) * 10)
                            (real_of_int cohesionPoints / max 1 maxPossible
                               * real (length members) * 10),
                      maxGroupScore + real (length members) * 10)))"

definition calculateFitness_server :: "optimizer \<Rightarrow> chromosome \<Rightarrow> exn + fitness" where
  "calculateFitness_server st chromosome =
     (case venue st of
        None \<Rightarrow> Inl TypeError
      | Some v \<Rightarrow>
         (case friendsOuter_server v chromosome (friendships st) (0, 0) of
            Inl e \<Rightarrow> Inl e
          | Inr (friendProximityScore, maxFriendScore) \<Rightarrow>
             (let mvd = sqrt ((real_of_int (rows v) + 1)\<^sup>2 + (real_of_int (cols v) / 2)\<^sup>2)
              in case attendeesLoop_server v chromosome mvd (enumerate 0 (attendees st)) emptyAcc of
                   Inl e \<Rightarrow> Inl e
                 | Inr acc \<Rightarrow>
                    (case groupsLoop_server v chromosome (groups st) (0, 0) of
                       Inl e \<Rightarrow> Inl e
                     | Inr (groupCohesionScore, maxGroupScore) \<Rightarrow>
                        (let normFriend =
                               (if maxFriendScore > 0 then friendProximityScore / maxFriendScore else 1);
                             normVip =
                               (if maxVipScore acc > 0 then vipPlacementScore acc / maxVipScore acc
                                else 1);
                             normGroup =
                               (if maxGroupScore > 0 then groupCohesionScore / maxGroupScore else 1);
                             normDistance =
                               (if maxDistanceScore acc > 0
                                then stageDistanceScore acc / maxDistanceScore acc else 1);
                             w = weights (config st);
                             totalWeight =
                               js_add
                                 (js_add (js_add (friendProximityW w) (vipPlacementW w))
                                    (groupCohesionW w))
                                 (stageDistanceW w)
                         in Inr \<lparr>total =
                                   js_div
                                     (js_add
                                        (js_add
                                           (js_add (js_mul (Num normFriend) (friendProximityW w))
                                              (js_mul (Num normVip) (vipPlacementW w)))
                                           (js_mul (Num normGroup) (groupCohesionW w)))
                                        (js_mul (Num normDistance) (stageDistanceW w)))
                                     totalWeight,
                                 friendProximity = normFriend,
                                 vipPlacement = normVip,
                                 groupCohesion = normGroup,
                                 stageDistance = normDistance\<rparr>)))))"

section \<open>Decoding a solution\<close>

record plan_seat =
  plan_row :: int
  plan_col :: int
  rowLabel :: jsstring
  seatNumber :: int
  plan_isVip :: bool
  seatId :: jsstring

record plan_entry =
  entry_attendee :: attendee
  entry_seat :: plan_seat

definition planSeat :: "seat \<Rightarrow> plan_seat" where
  "planSeat s =
     \<lparr>plan_row = row s, plan_col = col s,
      rowLabel = fromCharCode (65 + row s),
      seatNumber = col s + 1, plan_isVip = isVip s,
      seatId = fromCharCode (65 + row s) @ numToString (col s + 1)\<rparr>"

fun planLoop :: "venue option \<Rightarrow> chromosome \<Rightarrow> (nat \<times> attendee) list \<Rightarrow> exn + plan_entry list" where
  "planLoop vo c [] = Inr []"
| "planLoop vo c ((idx, a) # rest) =
     (case vo of
        None \<Rightarrow> Inl TypeError
      | Some v \<Rightarrow>
         (case seatAt v (chromGet c idx) of
            None \<Rightarrow> Inl TypeError
          | Some s \<Rightarrow>
             (case planLoop vo c rest of
                Inl e \<Rightarrow> Inl e
              | Inr plan \<Rightarrow> Inr (\<lparr>entry_attendee = a, entry_seat = planSeat s\<rparr> # plan))))"

text \<open>
  \<^verbatim>\<open>getSeatingPlan(solution = null)\<close>: the result \<open>None\<close> is \<^verbatim>\<open>null\<close>. An array, even an empty one, is
  truthy, so a given solution is always the one decoded.
\<close>

definition getSeatingPlan :: "optimizer \<Rightarrow> chromosome option \<Rightarrow> exn + plan_entry list option" where
  "getSeatingPlan st solution =
     (case (case solution of None \<Rightarrow> bestSolution st | Some c \<Rightarrow> Some c) of
        None \<Rightarrow> Inr None
      | Some chromosome \<Rightarrow>
         (case planLoop (venue st) chromosome (enumerate 0 (attendees st)) of
            Inl e \<Rightarrow> Inl e
          | Inr plan \<Rightarrow> Inr (Some plan)))"

section \<open>Valid assignments\<close>

text \<open>
  An assignment of \<open>N\<close> attendees to a venue of \<open>seatCount\<close> seats: \<open>N\<close> pairwise distinct seat
  positions, each in \<open>[0, seatCount)\<close>.
\<close>

definition validAssignment :: "int \<Rightarrow> nat \<Rightarrow> chromosome \<Rightarrow> bool" where
  "validAssignment seatCount N A =
     (length A = N \<and> distinct A
      \<and> list_all (\<lambda>x. case x of None \<Rightarrow> False | Some p \<Rightarrow> 0 \<le> p \<and> p < seatCount) A)"

section \<open>Random numbers and array writes\<close>

text \<open>
  \<^verbatim>\<open>Math.random()\<close> returns a number in \<open>[0, 1)\<close>. A run of the optimizer reads a sequence of such
  numbers: \<open>rs\<close> is the sequence, and every function that draws takes the position \<open>k\<close> of the next
  unread number and returns the position after its last draw.
\<close>

typedef rand = "{x::real. 0 \<le> x \<and> x < 1}"
  by (rule exI[of _ 0]) simp

setup_lifting type_definition_rand

lift_definition rand0 :: rand is 0
  by simp

lift_definition randHalf :: rand is "1 / 2"
  by simp

lift_definition rand9 :: rand is "9 / 10"
  by simp

type_synonym rng = "nat \<Rightarrow> rand"

text \<open>\<^verbatim>\<open>Math.floor(Math.random() * n)\<close>\<close>

definition randomIndex :: "rng \<Rightarrow> nat \<Rightarrow> int \<Rightarrow> int" where
  "randomIndex rs k n = \<lfloor>Rep_rand (rs k) * real_of_int n\<rfloor>"

text \<open>
  Writing an array element at an index at or past the length extends the array; the cells in
  between read as \<^verbatim>\<open>undefined\<close>. \<open>arrSwap\<close> is \<^verbatim>\<open>[a[i], a[j]] = [a[j], a[i]]\<close>.
\<close>

definition arrSet :: "chromosome \<Rightarrow> nat \<Rightarrow> cell \<Rightarrow> chromosome" where
  "arrSet a i x =
     (if i < length a then a[i := x] else a @ replicate (i - length a) None @ [x])"

definition arrSwap :: "chromosome \<Rightarrow> nat \<Rightarrow> nat \<Rightarrow> chromosome" where
  "arrSwap a i j = arrSet (arrSet a i (chromGet a j)) j (chromGet a i)"

text \<open>
  \<^verbatim>\<open>mutate\<close> can index its array with a negative number: that reads and writes a named property
  of the array object, which stays on the object but is not an element.
\<close>

record jsarray =
  items :: chromosome
  props :: "int \<Rightarrow> cell"

definition newArray :: "chromosome \<Rightarrow> jsarray" where
  "newArray xs = \<lparr>items = xs, props = (\<lambda>i. None)\<rparr>"

definition jsGet :: "jsarray \<Rightarrow> int \<Rightarrow> cell" where
  "jsGet a i = (if i < 0 then props a i else chromGet (items a) (nat i))"

definition jsSet :: "jsarray \<Rightarrow> int \<Rightarrow> cell \<Rightarrow> jsarray" where
  "jsSet a i x =
     (if i < 0 then a\<lparr>props := (props a)(i := x)\<rparr> else a\<lparr>items := arrSet (items a) (nat i) x\<rparr>)"

definition jsSwap :: "jsarray \<Rightarrow> int \<Rightarrow> int \<Rightarrow> jsarray" where
  "jsSwap a i j = jsSet (jsSet a i (jsGet a j)) j (jsGet a i)"

section \<open>Targeted swaps and smartMutate\<close>

text \<open>
  The two loops of \<^verbatim>\<open>improveVipPlacement\<close>: the first VIP attendee \<open>i\<close> in a non-VIP seat for which
  some non-VIP attendee sits in a VIP seat, with the first such attendee \<open>j\<close>. The first part of
  \<^verbatim>\<open>findWeakArea\<close> runs the same two loops.
\<close>

definition seatProp :: "venue option \<Rightarrow> cell \<Rightarrow> exn + seat" where
  "seatProp vo x =
     (case vo of
        None \<Rightarrow> Inl TypeError
      | Some v \<Rightarrow> (case seatAt v x of None \<Rightarrow> Inl TypeError | Some s \<Rightarrow> Inr s))"

fun vipInner :: "venue option \<Rightarrow> chromosome \<Rightarrow> (nat \<times> attendee) list \<Rightarrow> exn + nat option" where
  "vipInner vo c [] = Inr None"
| "vipInner vo c ((j, b) # rest) =
     (if type b \<noteq> ''vip''
      then (case seatProp vo (chromGet c j) of
              Inl e \<Rightarrow> Inl e
            | Inr otherSeat \<Rightarrow> if isVip otherSeat then Inr (Some j) else vipInner vo c rest)
      else vipInner vo c rest)"

fun vipOuter :: "venue option \<Rightarrow> chromosome \<Rightarrow> (nat \<times> attendee) list \<Rightarrow> (nat \<times> attendee) list
    \<Rightarrow> exn + (nat \<times> nat) option" where
  "vipOuter vo c all [] = Inr None"
| "vipOuter vo c all ((i, a) # rest) =
     (if type a = ''vip''
      then (case seatProp vo (chromGet c i) of
              Inl e \<Rightarrow> Inl e
            | Inr s \<Rightarrow>
                if \<not> isVip s
                then (case vipInner vo c all of
                        Inl e \<Rightarrow> Inl e
                      | Inr (Some j) \<Rightarrow> Inr (Some (i, j))
                      | Inr None \<Rightarrow> vipOuter vo c all rest)
                else vipOuter vo c all rest)
      else vipOuter vo c all rest)"

definition findVipSwap :: "optimizer \<Rightarrow> chromosome \<Rightarrow> exn + (nat \<times> nat) option" where
  "findVipSwap st c =
     vipOuter (venue st) c (enumerate 0 (attendees st)) (enumerate 0 (attendees st))"

definition improveVipPlacement :: "optimizer \<Rightarrow> chromosome \<Rightarrow> exn + chromosome" where
  "improveVipPlacement st c =
     (case findVipSwap st c of
        Inl e \<Rightarrow> Inl e
      | Inr None \<Rightarrow> Inr c
      | Inr (Some (i, j)) \<Rightarrow> Inr (arrSwap c i j))"

text \<open>
  \<^verbatim>\<open>trySwapForBetterProximity(chromosome, idx1, idx2)\<close>: the first index \<open>i\<close> other than \<open>idx1\<close> and
  \<open>idx2\<close> whose seat is at distance 1 from the seat of \<open>idx2\<close>; the seats of \<open>idx1\<close> and \<open>i\<close> are
  swapped.
\<close>

fun findAdjacent :: "venue \<Rightarrow> chromosome \<Rightarrow> nat \<Rightarrow> nat \<Rightarrow> seat option \<Rightarrow> nat list \<Rightarrow> exn + nat option" where
  "findAdjacent v c idx1 idx2 seat2 [] = Inr None"
| "findAdjacent v c idx1 idx2 seat2 (i # rest) =
     (if i = idx1 \<or> i = idx2 then findAdjacent v c idx1 idx2 seat2 rest
      else case getSeatDistance (seatAt v (chromGet c i)) seat2 of
             Inl e \<Rightarrow> Inl e
           | Inr d \<Rightarrow> if d = 1 then Inr (Some i) else findAdjacent v c idx1 idx2 seat2 rest)"

definition trySwapForBetterProximity :: "venue \<Rightarrow> chromosome \<Rightarrow> nat \<Rightarrow> nat \<Rightarrow> exn + chromosome" where
  "trySwapForBetterProximity v c idx1 idx2 =
     (case findAdjacent v c idx1 idx2 (seatAt v (chromGet c idx2)) [0..<length c] of
        Inl e \<Rightarrow> Inl e
      | Inr None \<Rightarrow> Inr c
      | Inr (Some i) \<Rightarrow> Inr (arrSwap c idx1 i))"

text \<open>
  The loops of \<^verbatim>\<open>improveFriendProximity\<close>: the first friendship pair (in the order of the
  friendship map) whose seats are more than 3 apart.
\<close>

fun farFriend :: "venue \<Rightarrow> chromosome \<Rightarrow> seat option \<Rightarrow> nat list \<Rightarrow> exn + nat option" where
  "farFriend v c attendeeSeat [] = Inr None"
| "farFriend v c attendeeSeat (friendIdx # rest) =
     (case getSeatDistance attendeeSeat (seatAt v (chromGet c friendIdx)) of
        Inl e \<Rightarrow> Inl e
      | Inr d \<Rightarrow> if d > 3 then Inr (Some friendIdx) else farFriend v c attendeeSeat rest)"

fun farPair :: "venue \<Rightarrow> chromosome \<Rightarrow> (nat \<times> nat list) list \<Rightarrow> exn + (nat \<times> nat) option" where
  "farPair v c [] = Inr None"
| "farPair v c ((attendeeIdx, friends) # rest) =
     (case farFriend v c (seatAt v (chromGet c attendeeIdx)) friends of
        Inl e \<Rightarrow> Inl e
      | Inr (Some friendIdx) \<Rightarrow> Inr (Some (attendeeIdx, friendIdx))
      | Inr None \<Rightarrow> farPair v c rest)"

definition improveFriendProximity :: "optimizer \<Rightarrow> chromosome \<Rightarrow> exn + chromosome" where
  "improveFriendProximity st c =
     (if friendships st = [] then Inr c
      else case venue st of
             None \<Rightarrow> Inl TypeError
           | Some v \<Rightarrow>
              (case farPair v c (friendships st) of
                 Inl e \<Rightarrow> Inl e
               | Inr None \<Rightarrow> Inr c
               | Inr (Some (attendeeIdx, friendIdx)) \<Rightarrow>
                   trySwapForBetterProximity v c attendeeIdx friendIdx))"

text \<open>
  \<^verbatim>\<open>smartMutate(chromosome, fitness)\<close>. \<^verbatim>\<open>Math.random()\<close> is drawn only when the comparison before
  \<^verbatim>\<open>&&\<close> holds. The result carries the position of the next unread random number.
\<close>

definition smartMutate :: "optimizer \<Rightarrow> rng \<Rightarrow> nat \<Rightarrow> chromosome \<Rightarrow> fitness \<Rightarrow> exn + chromosome \<times> nat" where
  "smartMutate st rs k chromosome fit =
     (let mutated = chromosome;
          doFriend = (friendProximity fit < 0.7 \<and> Rep_rand (rs k) < 0.5);
          k1 = (if friendProximity fit < 0.7 then k + 1 else k)
      in case (if doFriend then improveFriendProximity st mutated else Inr mutated) of
           Inl e \<Rightarrow> Inl e
         | Inr mutated1 \<Rightarrow>
            (let doVip = (vipPlacement fit < 0.8 \<and> Rep_rand (rs k1) < 0.5);
                 k2 = (if vipPlacement fit < 0.8 then k1 + 1 else k1)
             in case (if doVip then improveVipPlacement st mutated1 else Inr mutated1) of
                  Inl e \<Rightarrow> Inl e
                | Inr mutated2 \<Rightarrow> Inr (mutated2, k2)))"

section \<open>mutate\<close>

text \<open>
  The browser \<^verbatim>\<open>mutate\<close>. The array is changed in place and returned; \<^verbatim>\<open>chromosome.length\<close> is
  read at each use. The block swap draws its length in \<open>[2, 6]\<close> and its two starts by
  \<^verbatim>\<open>Math.floor(Math.random() * (chromosome.length - len))\<close>, which is negative when the array is
  shorter than the block.
\<close>

definition adaptiveRate :: "optimizer \<Rightarrow> real" where
  "adaptiveRate st =
     mutationRate (config st) * (1 + exp (- real_of_int (currentGeneration st) / 20))"

definition blockSwap :: "jsarray \<Rightarrow> int \<Rightarrow> int \<Rightarrow> int \<Rightarrow> jsarray" where
  "blockSwap a start1 start2 len =
     foldl (\<lambda>a i. jsSwap a (start1 + int i) (start2 + int i)) a [0..<nat len]"

definition mutate :: "optimizer \<Rightarrow> rng \<Rightarrow> nat \<Rightarrow> jsarray \<Rightarrow> jsarray \<times> nat" where
  "mutate st rs k chromosome =
     (if Rep_rand (rs k) < adaptiveRate st
      then (let idx1 = randomIndex rs (k + 1) (int (length (items chromosome)));
                idx2 = randomIndex rs (k + 2) (int (length (items chromosome)));
                swapped = jsSwap chromosome idx1 idx2
            in if Rep_rand (rs (k + 3)) < 0.3
               then (let len = randomIndex rs (k + 4) 5 + 2;
                         start1 = randomIndex rs (k + 5) (int (length (items swapped)) - len);
                         start2 = randomIndex rs (k + 6) (int (length (items swapped)) - len)
                     in (blockSwap swapped start1 start2 len, k + 7))
               else (swapped, k + 4))
      else (chromosome, k + 1))"

text \<open>The server \<^verbatim>\<open>mutate\<close>: a fixed rate and no block swap.\<close>

definition mutate_server :: "optimizer \<Rightarrow> rng \<Rightarrow> nat \<Rightarrow> jsarray \<Rightarrow> jsarray \<times> nat" where
  "mutate_server st rs k chromosome =
     (if Rep_rand (rs k) < mutationRate (config st)
      then (let idx1 = randomIndex rs (k + 1) (int (length (items chromosome)));
                idx2 = randomIndex rs (k + 2) (int (length (items chromosome)))
            in (jsSwap chromosome idx1 idx2, k + 3))
      else (chromosome, k + 1))"

section \<open>Simulated annealing\<close>

text \<open>The second part of \<^verbatim>\<open>findWeakArea\<close>: an isolated group member and an outsider to swap with.\<close>

fun hasNeighbor :: "venue \<Rightarrow> chromosome \<Rightarrow> nat \<Rightarrow> seat option \<Rightarrow> nat list \<Rightarrow> exn + bool" where
  "hasNeighbor v c memberIdx memberSeat [] = Inr False"
| "hasNeighbor v c memberIdx memberSeat (otherIdx # rest) =
     (if otherIdx = memberIdx then hasNeighbor v c memberIdx memberSeat rest
      else case getSeatDistance memberSeat (seatAt v (chromGet c otherIdx)) of
             Inl e \<Rightarrow> Inl e
           | Inr d \<Rightarrow> if d \<le> 2 then Inr True else hasNeighbor v c memberIdx memberSeat rest)"

fun findOutsider :: "venue \<Rightarrow> chromosome \<Rightarrow> nat list \<Rightarrow> seat option \<Rightarrow> nat list \<Rightarrow> exn + nat option" where
  "findOutsider v c members otherSeat [] = Inr None"
| "findOutsider v c members otherSeat (k # ks) =
     (if k \<notin> set members
      then (case getSeatDistance otherSeat (seatAt v (chromGet c k)) of
              Inl e \<Rightarrow> Inl e
            | Inr d \<Rightarrow> if d = 1 then Inr (Some k) else findOutsider v c members otherSeat ks)
      else findOutsider v c members otherSeat ks)"

fun findSwapPartner :: "venue \<Rightarrow> chromosome \<Rightarrow> nat \<Rightarrow> nat list \<Rightarrow> nat \<Rightarrow> nat list \<Rightarrow> exn + nat option" where
  "findSwapPartner v c N members memberIdx [] = Inr None"
| "findSwapPartner v c N members memberIdx (otherIdx # rest) =
     (if otherIdx = memberIdx then findSwapPartner v c N members memberIdx rest
      else case findOutsider v c members (seatAt v (chromGet c otherIdx)) [0..<N] of
             Inl e \<Rightarrow> Inl e
           | Inr (Some k) \<Rightarrow> Inr (Some k)
           | Inr None \<Rightarrow> findSwapPartner v c N members memberIdx rest)"

fun isolatedMember :: "venue \<Rightarrow> chromosome \<Rightarrow> nat \<Rightarrow> nat list \<Rightarrow> nat list \<Rightarrow> exn + (nat \<times> nat) option" where
  "isolatedMember v c N members [] = Inr None"
| "isolatedMember v c N members (memberIdx # rest) =
     (case hasNeighbor v c memberIdx (seatAt v (chromGet c memberIdx)) members of
        Inl e \<Rightarrow> Inl e
      | Inr True \<Rightarrow> isolatedMember v c N members rest
      | Inr False \<Rightarrow>
         (case findSwapPartner v c N members memberIdx members of
            Inl e \<Rightarrow> Inl e
          | Inr (Some k) \<Rightarrow> Inr (Some (memberIdx, k))
          | Inr None \<Rightarrow> isolatedMember v c N members rest))"

fun weakGroup :: "venue option \<Rightarrow> chromosome \<Rightarrow> nat \<Rightarrow> (string \<times> nat list) list \<Rightarrow> exn + (nat \<times> nat) option" where
  "weakGroup vo c N [] = Inr None"
| "weakGroup vo c N ((g, members) # rest) =
     (if length members \<le> 1 then weakGroup vo c N rest
      else case vo of
             None \<Rightarrow> Inl TypeError
           | Some v \<Rightarrow>
              (case isolatedMember v c N members members of
                 Inl e \<Rightarrow> Inl e
               | Inr (Some p) \<Rightarrow> Inr (Some p)
               | Inr None \<Rightarrow> weakGroup vo c N rest))"

definition findWeakArea :: "optimizer \<Rightarrow> chromosome \<Rightarrow> fitness \<Rightarrow> exn + (nat \<times> nat) option" where
  "findWeakArea st chromosome fit =
     (case (if vipPlacement fit < 0.8 then findVipSwap st chromosome else Inr None) of
        Inl e \<Rightarrow> Inl e
      | Inr (Some p) \<Rightarrow> Inr (Some p)
      | Inr None \<Rightarrow>
          if groupCohesion fit < 0.7
          then weakGroup (venue st) chromosome (length (attendees st)) (groups st)
          else Inr None)"

text \<open>A swap of two random positions: two draws.\<close>

definition randomSwap :: "rng \<Rightarrow> nat \<Rightarrow> chromosome \<Rightarrow> chromosome" where
  "randomSwap rs k neighbor =
     arrSwap neighbor (nat (randomIndex rs k (int (length neighbor))))
       (nat (randomIndex rs (k + 1) (int (length neighbor))))"

text \<open>The neighbour of the browser's annealing step, with the position after its draws.\<close>

definition saNeighbor :: "optimizer \<Rightarrow> rng \<Rightarrow> nat \<Rightarrow> chromosome \<Rightarrow> fitness \<Rightarrow> exn + chromosome \<times> nat" where
  "saNeighbor st rs k current currentFitness =
     (if Rep_rand (rs k) < 0.5
      then (case findWeakArea st current currentFitness of
              Inl e \<Rightarrow> Inl e
            | Inr (Some (idx1, idx2)) \<Rightarrow> Inr (arrSwap current idx1 idx2, k + 1)
            | Inr None \<Rightarrow> Inr (randomSwap rs (k + 1) current, k + 3))
      else Inr (randomSwap rs (k + 1) current, k + 3))"

record sa_state =
  current :: chromosome
  currentFitness :: fitness
  best :: chromosome
  bestFit :: fitness
  temp :: real

text \<open>
  Acceptance and best tracking of one step. \<^verbatim>\<open>Math.random()\<close> is drawn only when \<^verbatim>\<open>delta > 0\<close> is
  false.
\<close>

definition saAccept :: "rng \<Rightarrow> nat \<Rightarrow> sa_state \<Rightarrow> chromosome \<Rightarrow> fitness \<Rightarrow> real \<Rightarrow> sa_state \<times> nat" where
  "saAccept rs k s neighbor neighborFitness cooling =
     (let delta = js_sub (total neighborFitness) (total (currentFitness s));
          accept = (js_gt delta (Num 0)
                    \<or> js_lt (Num (Rep_rand (rs k))) (js_exp (js_div delta (Num (temp s)))));
          k' = (if js_gt delta (Num 0) then k else k + 1);
          s1 = (if accept
                then (if js_gt (total neighborFitness) (total (bestFit s))
                      then s\<lparr>current := neighbor, currentFitness := neighborFitness,
                              best := neighbor, bestFit := neighborFitness\<rparr>
                      else s\<lparr>current := neighbor, currentFitness := neighborFitness\<rparr>)
                else s)
      in (s1\<lparr>temp := temp s1 * cooling\<rparr>, k'))"

fun saLoop :: "optimizer \<Rightarrow> rng \<Rightarrow> nat \<Rightarrow> nat \<Rightarrow> sa_state \<Rightarrow> exn + sa_state \<times> nat" where
  "saLoop st rs 0 k s = Inr (s, k)"
| "saLoop st rs (Suc n) k s =
     (if temp s > minTemp (config st)
      then (case saNeighbor st rs k (current s) (currentFitness s) of
              Inl e \<Rightarrow> Inl e
            | Inr (neighbor, k1) \<Rightarrow>
               (case calculateFitness st neighbor of
                  Inl e \<Rightarrow> Inl e
                | Inr neighborFitness \<Rightarrow>
                   (case saAccept rs k1 s neighbor neighborFitness (coolingRate (config st)) of
                      (s', k2) \<Rightarrow> saLoop st rs n k2 s')))
      else Inr (s, k))"

record sa_result =
  sa_chromosome :: chromosome
  sa_fitness :: fitness

definition simulatedAnnealing :: "optimizer \<Rightarrow> rng \<Rightarrow> nat \<Rightarrow> chromosome \<Rightarrow> nat \<Rightarrow> exn + sa_result \<times> nat" where
  "simulatedAnnealing st rs k chromosome iterations =
     (case calculateFitness st chromosome of
        Inl e \<Rightarrow> Inl e
      | Inr f \<Rightarrow>
         (case saLoop st rs iterations k
                 \<lparr>current = chromosome, currentFitness = f, best = chromosome, bestFit = f,
                  temp = initialTemp (config st)\<rparr> of
            Inl e \<Rightarrow> Inl e
          | Inr (s, k') \<Rightarrow> Inr (\<lparr>sa_chromosome = best s, sa_fitness = bestFit s\<rparr>, k')))"

text \<open>The server's annealing: every neighbour is a random swap.\<close>

fun saLoop_server :: "optimizer \<Rightarrow> rng \<Rightarrow> nat \<Rightarrow> nat \<Rightarrow> sa_state \<Rightarrow> exn + sa_state \<times> nat" where
  "saLoop_server st rs 0 k s = Inr (s, k)"
| "saLoop_server st rs (Suc n) k s =
     (if temp s > minTemp (config st)
      then (case calculateFitness_server st (randomSwap rs k (current s)) of
              Inl e \<Rightarrow> Inl e
            | Inr neighborFitness \<Rightarrow>
               (case saAccept rs (k + 2) s (randomSwap rs k (current s)) neighborFitness
                       (coolingRate (config st)) of
                  (s', k2) \<Rightarrow> saLoop_server st rs n k2 s'))
      else Inr (s, k))"

definition simulatedAnnealing_server :: "optimizer \<Rightarrow> rng \<Rightarrow> nat \<Rightarrow> chromosome \<Rightarrow> nat \<Rightarrow> exn + sa_result \<times> nat" where
  "simulatedAnnealing_server st rs k chromosome iterations =
     (case calculateFitness_server st chromosome of
        Inl e \<Rightarrow> Inl e
      | Inr f \<Rightarrow>
         (case saLoop_server st rs iterations k
                 \<lparr>current = chromosome, currentFitness = f, best = chromosome, bestFit = f,
                  temp = initialTemp (config st)\<rparr> of
            Inl e \<Rightarrow> Inl e
          | Inr (s, k') \<Rightarrow> Inr (\<lparr>sa_chromosome = best s, sa_fitness = bestFit s\<rparr>, k')))"

section \<open>Generators\<close>

text \<open>
  \<^verbatim>\<open>shuffleArray\<close>: \<open>i\<close> runs from the last index down to 1 and \<open>j\<close> is drawn in \<open>[0, i]\<close>, so both
  indices are inside the array.
\<close>

fun shuffleLoop :: "rng \<Rightarrow> nat \<Rightarrow> nat \<Rightarrow> int list \<Rightarrow> int list \<times> nat" where
  "shuffleLoop rs k 0 xs = (xs, k)"
| "shuffleLoop rs k (Suc i) xs =
     (let j = nat (randomIndex rs k (int (Suc i) + 1))
      in shuffleLoop rs (k + 1) i (xs[Suc i := xs ! j, j := xs ! Suc i]))"

definition shuffleArray :: "rng \<Rightarrow> nat \<Rightarrow> int list \<Rightarrow> int list \<times> nat" where
  "shuffleArray rs k xs = shuffleLoop rs k (length xs - 1) xs"

definition generateRandomChromosome :: "optimizer \<Rightarrow> rng \<Rightarrow> nat \<Rightarrow> exn + chromosome \<times> nat" where
  "generateRandomChromosome st rs k =
     (case venue st of
        None \<Rightarrow> Inl TypeError
      | Some v \<Rightarrow>
         (case shuffleArray rs k (map int [0..<nat (totalSeats v)]) of
            (availableSeats, k') \<Rightarrow>
              Inr (map Some (take (length (attendees st)) availableSeats), k')))"

text \<open>
  \<^verbatim>\<open>generateGreedySolution\<close>. The comparator of the sort orders by VIP first, then higher priority,
  then larger group; the array sort is stable, so it is a stable sort by that key.
\<close>

definition groupSize :: "(string \<times> nat list) list \<Rightarrow> attendee \<Rightarrow> int" where
  "groupSize gs a =
     (case truthyGroup a of
        None \<Rightarrow> 0
      | Some g \<Rightarrow> (case map_of gs g of None \<Rightarrow> 0 | Some members \<Rightarrow> int (length members)))"

definition greedyKey :: "(string \<times> nat list) list \<Rightarrow> attendee \<Rightarrow> nat \<times> real \<times> int" where
  "greedyKey gs a = (if type a = ''vip'' then 0 else 1, - priority a, - groupSize gs a)"

definition sortedIndices :: "optimizer \<Rightarrow> nat list" where
  "sortedIndices st =
     map fst (sort_key (\<lambda>x. greedyKey (groups st) (snd x)) (enumerate 0 (attendees st)))"

fun groupAttraction :: "venue \<Rightarrow> chromosome \<Rightarrow> seat \<Rightarrow> nat list \<Rightarrow> real \<Rightarrow> exn + real" where
  "groupAttraction v chromosome s [] score = Inr score"
| "groupAttraction v chromosome s (memberIdx # rest) score =
     (if chromGet chromosome memberIdx \<noteq> Some (- 1)
      then (case getSeatDistance (Some s) (seatAt v (chromGet chromosome memberIdx)) of
              Inl e \<Rightarrow> Inl e
            | Inr d \<Rightarrow>
                groupAttraction v chromosome s rest (score + max 0 (100 - real_of_int d * 20)))
      else groupAttraction v chromosome s rest score)"

definition preferenceScore :: "venue \<Rightarrow> attendee \<Rightarrow> seat \<Rightarrow> real" where
  "preferenceScore v a s =
     (if preference a = ''front'' \<and> real_of_int (row s) < real_of_int (rows v) / 3 then 50
      else if preference a = ''middle'' \<and> real_of_int (row s) \<ge> real_of_int (rows v) / 3
              \<and> real_of_int (row s) < 2 * real_of_int (rows v) / 3 then 50
      else if preference a = ''back'' \<and> real_of_int (row s) \<ge> 2 * real_of_int (rows v) / 3 then 50
      else 0)"

definition seatScore :: "optimizer \<Rightarrow> venue \<Rightarrow> chromosome \<Rightarrow> attendee \<Rightarrow> seat \<Rightarrow> exn + real" where
  "seatScore st v chromosome a s =
     (let score0 = (if type a = ''vip'' then (if isVip s then 200 else - 100) else 0);
          priorityWeight = priority a / 10;
          score1 = score0 + (200 * priorityWeight) / (distanceToStage s + 1);
          score2 = score1 + preferenceScore v a s
      in case truthyGroup a of
           None \<Rightarrow> Inr score2
         | Some g \<Rightarrow>
            (case map_of (groups st) g of
               None \<Rightarrow> Inr score2
             | Some members \<Rightarrow> groupAttraction v chromosome s members score2))"

text \<open>
  The scan over all seat positions: \<open>bestScore\<close> starts at \<open>-Infinity\<close> (\<open>None\<close>), \<open>bestSeat\<close> at
  \<open>-1\<close>.
\<close>

fun bestSeatLoop :: "optimizer \<Rightarrow> venue \<Rightarrow> chromosome \<Rightarrow> int list \<Rightarrow> attendee \<Rightarrow> int list
    \<Rightarrow> int \<times> real option \<Rightarrow> exn + int \<times> real option" where
  "bestSeatLoop st v chromosome usedSeats a [] acc = Inr acc"
| "bestSeatLoop st v chromosome usedSeats a (seatPos # rest) acc =
     (if seatPos \<in> set usedSeats then bestSeatLoop st v chromosome usedSeats a rest acc
      else case seatAt v (Some seatPos) of
             None \<Rightarrow> Inl TypeError
           | Some s \<Rightarrow>
              (case seatScore st v chromosome a s of
                 Inl e \<Rightarrow> Inl e
               | Inr score \<Rightarrow>
                   bestSeatLoop st v chromosome usedSeats a rest
                     (case snd acc of
                        None \<Rightarrow> (seatPos, Some score)
                      | Some bestScore \<Rightarrow>
                          if score > bestScore then (seatPos, Some score) else acc)))"

fun firstFree :: "int list \<Rightarrow> int list \<Rightarrow> int" where
  "firstFree usedSeats [] = - 1"
| "firstFree usedSeats (s # rest) = (if s \<notin> set usedSeats then s else firstFree usedSeats rest)"

fun greedyLoop :: "optimizer \<Rightarrow> venue \<Rightarrow> nat list \<Rightarrow> chromosome \<times> int list \<Rightarrow> exn + chromosome \<times> int list" where
  "greedyLoop st v [] acc = Inr acc"
| "greedyLoop st v (attendeeIdx # rest) acc =
     (case bestSeatLoop st v (fst acc) (snd acc) (attendees st ! attendeeIdx)
             (map int [0..<nat (totalSeats v)]) (- 1, None) of
        Inl e \<Rightarrow> Inl e
      | Inr (found, bestScore) \<Rightarrow>
         (let bestSeat =
                (if found = - 1 then firstFree (snd acc) (map int [0..<nat (totalSeats v)])
                 else found)
          in greedyLoop st v rest
               (arrSet (fst acc) attendeeIdx (Some bestSeat), bestSeat # snd acc)))"

definition generateGreedySolution :: "optimizer \<Rightarrow> exn + chromosome" where
  "generateGreedySolution st =
     (if attendees st = [] then Inr []
      else case venue st of
             None \<Rightarrow> Inl TypeError
           | Some v \<Rightarrow>
              (case greedyLoop st v (sortedIndices st)
                      (replicate (length (attendees st)) (Some (- 1)), []) of
                 Inl e \<Rightarrow> Inl e
               | Inr (chromosome, usedSeats) \<Rightarrow> Inr chromosome))"

section \<open>Selection and crossover\<close>

fun tournamentLoop :: "rng \<Rightarrow> nat \<Rightarrow> nat \<Rightarrow> chromosome list \<Rightarrow> fitness list
    \<Rightarrow> chromosome option \<times> jsnum \<Rightarrow> exn + (chromosome option \<times> jsnum) \<times> nat" where
  "tournamentLoop rs 0 k population fitnessValues acc = Inr (acc, k)"
| "tournamentLoop rs (Suc n) k population fitnessValues acc =
     (let idx = nat (randomIndex rs k (int (length population)))
      in if idx < length fitnessValues
         then tournamentLoop rs n (k + 1) population fitnessValues
                (if js_gt (total (fitnessValues ! idx)) (snd acc)
                 then (if idx < length population then Some (population ! idx) else None,
                       total (fitnessValues ! idx))
                 else acc)
         else Inl TypeError)"

definition tournamentSelect :: "optimizer \<Rightarrow> rng \<Rightarrow> nat \<Rightarrow> chromosome list \<Rightarrow> fitness list
    \<Rightarrow> exn + chromosome \<times> nat" where
  "tournamentSelect st rs k population fitnessValues =
     (case tournamentLoop rs (nat (tournamentSize (config st))) k population fitnessValues
             (None, Num (- 1)) of
        Inl e \<Rightarrow> Inl e
      | Inr ((None, score), k') \<Rightarrow> Inl TypeError
      | Inr ((Some winner, score), k') \<Rightarrow> Inr (winner, k'))"

text \<open>
  \<^verbatim>\<open>fillCrossoverChild\<close>: the loop \<^verbatim>\<open>while (child.includes(-1))\<close> has no bound of its own, so it is a
  partial function and \<open>None\<close> is a loop that never ends. \<open>usedSeats\<close> is the \<^verbatim>\<open>Set\<close> of the cells
  seen so far (\<^verbatim>\<open>undefined\<close> can be one of them).
\<close>

partial_function (option) fillLoop :: "nat \<Rightarrow> chromosome \<Rightarrow> chromosome \<Rightarrow> cell list \<Rightarrow> nat \<Rightarrow> nat
    \<Rightarrow> chromosome option" where
  "fillLoop len parent child usedSeats childIdx parentIdx =
     (if Some (- 1) \<in> set child
      then (if chromGet parent parentIdx \<notin> set usedSeats
            then fillLoop len parent (arrSet child childIdx (chromGet parent parentIdx))
                   (chromGet parent parentIdx # usedSeats) ((childIdx + 1) mod len)
                   ((parentIdx + 1) mod len)
            else fillLoop len parent child usedSeats childIdx ((parentIdx + 1) mod len))
      else Some child)"

definition fillCrossoverChild :: "chromosome \<Rightarrow> chromosome \<Rightarrow> nat \<Rightarrow> nat \<Rightarrow> chromosome option" where
  "fillCrossoverChild child parent start end =
     fillLoop (length child) parent child (filter (\<lambda>s. s \<noteq> Some (- 1)) child)
       ((end + 1) mod length child) ((end + 1) mod length child)"

definition copySegment :: "chromosome \<Rightarrow> chromosome \<Rightarrow> nat \<Rightarrow> nat \<Rightarrow> chromosome" where
  "copySegment child parent start end =
     foldl (\<lambda>ch i. arrSet ch i (chromGet parent i)) child [start..<end + 1]"

definition crossover :: "optimizer \<Rightarrow> rng \<Rightarrow> nat \<Rightarrow> chromosome \<Rightarrow> chromosome
    \<Rightarrow> ((chromosome \<times> chromosome) \<times> nat) option" where
  "crossover st rs k parent1 parent2 =
     (if Rep_rand (rs k) > crossoverRate (config st) then Some ((parent1, parent2), k + 1)
      else (let len = length parent1;
                start = nat (randomIndex rs (k + 1) (int len));
                end = start + nat (randomIndex rs (k + 2) (int len - int start));
                child1 = copySegment (replicate len (Some (- 1))) parent1 start end;
                child2 = copySegment (replicate len (Some (- 1))) parent2 start end
            in case fillCrossoverChild child1 parent2 start end of
                 None \<Rightarrow> None
               | Some c1 \<Rightarrow>
                  (case fillCrossoverChild child2 parent1 start end of
                     None \<Rightarrow> None
                   | Some c2 \<Rightarrow> Some ((c1, c2), k + 3))))"

section \<open>The optimization driver\<close>

fun mutateTimes :: "optimizer \<Rightarrow> rng \<Rightarrow> nat \<Rightarrow> nat \<Rightarrow> jsarray \<Rightarrow> jsarray \<times> nat" where
  "mutateTimes st rs 0 k a = (a, k)"
| "mutateTimes st rs (Suc n) k a =
     (case mutate st rs k a of (a', k') \<Rightarrow> mutateTimes st rs n k' a')"

fun greedyPart :: "optimizer \<Rightarrow> rng \<Rightarrow> nat \<Rightarrow> nat \<Rightarrow> chromosome list \<Rightarrow> exn + chromosome list \<times> nat" where
  "greedyPart st rs 0 k population = Inr (population, k)"
| "greedyPart st rs (Suc n) k population =
     (case generateGreedySolution st of
        Inl e \<Rightarrow> Inl e
      | Inr greedy \<Rightarrow>
         (case mutateTimes st rs 5 k (newArray greedy) of
            (mutated, k') \<Rightarrow> greedyPart st rs n k' (population @ [items mutated])))"

fun randomPart :: "optimizer \<Rightarrow> rng \<Rightarrow> nat \<Rightarrow> nat \<Rightarrow> chromosome list \<Rightarrow> exn + chromosome list \<times> nat" where
  "randomPart st rs 0 k population = Inr (population, k)"
| "randomPart st rs (Suc n) k population =
     (case generateRandomChromosome st rs k of
        Inl e \<Rightarrow> Inl e
      | Inr (c, k') \<Rightarrow> randomPart st rs n k' (population @ [c]))"

definition initializePopulation :: "optimizer \<Rightarrow> rng \<Rightarrow> nat \<Rightarrow> exn + chromosome list \<times> nat" where
  "initializePopulation st rs k =
     (case greedyPart st rs (nat \<lfloor>real_of_int (populationSize (config st)) * 0.2\<rfloor>) k [] of
        Inl e \<Rightarrow> Inl e
      | Inr (population, k') \<Rightarrow>
          randomPart st rs (nat (populationSize (config st) - int (length population))) k'
            population)"

text \<open>\<^verbatim>\<open>population.map(c => this.calculateFitness(c))\<close>\<close>

fun mapFitness :: "optimizer \<Rightarrow> chromosome list \<Rightarrow> exn + fitness list" where
  "mapFitness st [] = Inr []"
| "mapFitness st (c # cs) =
     (case calculateFitness st c of
        Inl e \<Rightarrow> Inl e
      | Inr f \<Rightarrow> (case mapFitness st cs of Inl e \<Rightarrow> Inl e | Inr fs \<Rightarrow> Inr (f # fs)))"

text \<open>The index of the first largest total: \<^verbatim>\<open>bestIdx\<close> starts at 0 and moves on a strictly larger total.\<close>

definition bestIndex :: "fitness list \<Rightarrow> nat" where
  "bestIndex fitnessValues =
     foldl (\<lambda>bestIdx i.
              if js_gt (total (fitnessValues ! i)) (total (fitnessValues ! bestIdx)) then i
              else bestIdx)
       0 [1..<length fitnessValues]"

text \<open>
  \<^verbatim>\<open>.sort((a, b) => b.fitness.total - a.fitness.total)\<close>: a stable insertion by the comparator, an
  element staying behind those the comparator puts before it.
\<close>

definition sortsAfter :: "chromosome \<times> fitness \<Rightarrow> chromosome \<times> fitness \<Rightarrow> bool" where
  "sortsAfter a b = js_gt (js_sub (total (snd b)) (total (snd a))) (Num 0)"

fun insertSorted :: "chromosome \<times> fitness \<Rightarrow> (chromosome \<times> fitness) list \<Rightarrow> (chromosome \<times> fitness) list" where
  "insertSorted x [] = [x]"
| "insertSorted x (y # ys) = (if sortsAfter x y then y # insertSorted x ys else x # y # ys)"

definition sortByFitness :: "(chromosome \<times> fitness) list \<Rightarrow> (chromosome \<times> fitness) list" where
  "sortByFitness xs = foldr insertSorted xs []"

text \<open>
  The \<^verbatim>\<open>while (newPopulation.length < populationSize)\<close> loop of one generation: \<open>need\<close> is the
  number of places still free. Each round appends one child, and the second child when a place is
  left. The result is \<open>None\<close> when a crossover never ends.
\<close>

fun breed :: "optimizer \<Rightarrow> rng \<Rightarrow> nat \<Rightarrow> nat \<Rightarrow> chromosome list \<Rightarrow> fitness list \<Rightarrow> chromosome list
    \<Rightarrow> (exn + chromosome list \<times> nat) option" where
  "breed st rs 0 k population fitnessValues newPopulation = Some (Inr (newPopulation, k))"
| "breed st rs (Suc need) k population fitnessValues newPopulation =
     (case tournamentSelect st rs k population fitnessValues of
        Inl e \<Rightarrow> Some (Inl e)
      | Inr (p1, k1) \<Rightarrow>
         (case tournamentSelect st rs k1 population fitnessValues of
            Inl e \<Rightarrow> Some (Inl e)
          | Inr (p2, k2) \<Rightarrow>
             (case crossover st rs k2 p1 p2 of
                None \<Rightarrow> None
              | Some ((x1, x2), k3) \<Rightarrow>
                 (case mutate st rs k3 (newArray x1) of
                    (m1, k4) \<Rightarrow>
                     (case mutate st rs k4 (newArray x2) of
                        (m2, k5) \<Rightarrow>
                         (case (if Rep_rand (rs k5) < 0.3
                                then (case calculateFitness st (items m1) of
                                        Inl e \<Rightarrow> Inl e
                                      | Inr f \<Rightarrow> smartMutate st rs (k5 + 1) (items m1) f)
                                else Inr (items m1, k5 + 1)) of
                            Inl e \<Rightarrow> Some (Inl e)
                          | Inr (c1, k6) \<Rightarrow>
                              (case need of
                                 0 \<Rightarrow> Some (Inr (newPopulation @ [c1], k6))
                               | Suc need' \<Rightarrow>
                                   breed st rs need' k6 population fitnessValues
                                     (newPopulation @ [c1, items m2]))))))))"

text \<open>The first \<^verbatim>\<open>elitismCount\<close> entries of the sorted population; reading past its end raises.\<close>

definition elites :: "optimizer \<Rightarrow> (chromosome \<times> fitness) list \<Rightarrow> exn + chromosome list" where
  "elites st ranked =
     (if nat (elitismCount (config st)) \<le> length ranked
      then Inr (map fst (take (nat (elitismCount (config st))) ranked))
      else Inl TypeError)"

definition updateBest :: "optimizer \<Rightarrow> chromosome list \<Rightarrow> fitness list \<Rightarrow> optimizer" where
  "updateBest st population fitnessValues =
     foldl (\<lambda>s (c, f).
              if js_gt (total f) (bestTotal (bestFitness s))
              then s\<lparr>bestSolution := Some c, bestFitness := Fitness f\<rparr>
              else s)
       st (zip population fitnessValues)"

text \<open>
  One generation of the browser's loop, from \<^verbatim>\<open>this.currentGeneration = gen\<close> to the push on
  \<^verbatim>\<open>fitnessHistory\<close>. On an exception the state reached so far is kept.
\<close>

definition generation :: "optimizer \<Rightarrow> rng \<Rightarrow> nat \<Rightarrow> nat \<Rightarrow> chromosome list \<Rightarrow> fitness list
    \<Rightarrow> (optimizer \<times> (exn + (chromosome list \<times> fitness list) \<times> nat)) option" where
  "generation st rs gen k population fitnessValues =
     (let st1 = st\<lparr>currentGeneration := int gen\<rparr>
      in case elites st1 (sortByFitness (zip population fitnessValues)) of
           Inl e \<Rightarrow> Some (st1, Inl e)
         | Inr kept \<Rightarrow>
            (case breed st1 rs (nat (populationSize (config st1) - int (length kept))) k
                    population fitnessValues kept of
               None \<Rightarrow> None
             | Some (Inl e) \<Rightarrow> Some (st1, Inl e)
             | Some (Inr (newPopulation, k')) \<Rightarrow>
                (case mapFitness st1 newPopulation of
                   Inl e \<Rightarrow> Some (st1, Inl e)
                 | Inr newFitness \<Rightarrow>
                    (let st2 = updateBest st1 newPopulation newFitness;
                         st3 = st2\<lparr>fitnessHistory :=
                                     fitnessHistory st2 @ [bestTotal (bestFitness st2)]\<rparr>
                     in Some (st3, Inr ((newPopulation, newFitness), k'))))))"

text \<open>
  The generation loop. \<open>stops gen\<close> says whether \<^verbatim>\<open>stop()\<close> was called during generation \<open>gen\<close> (by
  the progress callback, or while the loop yields to the host after every fifth generation).
  \<open>n\<close> is the number of generations left.
\<close>

fun generationLoop :: "rng \<Rightarrow> (nat \<Rightarrow> bool) \<Rightarrow> nat \<Rightarrow> nat \<Rightarrow> nat \<Rightarrow> optimizer \<Rightarrow> chromosome list \<Rightarrow> fitness list
    \<Rightarrow> (optimizer \<times> (exn + nat)) option" where
  "generationLoop rs stops 0 gen k st population fitnessValues = Some (st, Inr k)"
| "generationLoop rs stops (Suc n) gen k st population fitnessValues =
     (if isRunning st
      then (case generation st rs gen k population fitnessValues of
              None \<Rightarrow> None
            | Some (st', Inl e) \<Rightarrow> Some (st', Inl e)
            | Some (st', Inr ((newPopulation, newFitness), k')) \<Rightarrow>
                generationLoop rs stops n (Suc gen) k'
                  (if stops gen then st'\<lparr>isRunning := False\<rparr> else st')
                  newPopulation newFitness)
      else Some (st, Inr k))"

datatype failure = ConfigError | Thrown exn

record opt_result =
  solution :: "chromosome option"
  fitnessOf :: best_fitness
  history :: "jsnum list"

definition totalGenerations :: "optimizer \<Rightarrow> nat" where
  "totalGenerations st =
     (let m = (case mode (config st) of None \<Rightarrow> ''balanced'' | Some m \<Rightarrow> if m = [] then ''balanced'' else m)
      in if m = ''fast'' then 50 else if m = ''thorough'' then 500 else nat (generations (config st)))"

definition saIterations :: "optimizer \<Rightarrow> nat" where
  "saIterations st =
     (let m = (case mode (config st) of None \<Rightarrow> ''balanced'' | Some m \<Rightarrow> if m = [] then ''balanced'' else m)
      in if m = ''fast'' then 20 else if m = ''thorough'' then 200 else 100)"

text \<open>
  The final polish: annealing from the best solution, which replaces it only on a strictly larger
  total.
\<close>

definition polish :: "optimizer \<Rightarrow> sa_result \<Rightarrow> optimizer" where
  "polish st refined =
     (if js_gt (total (sa_fitness refined)) (bestTotal (bestFitness st))
      then st\<lparr>bestSolution := Some (sa_chromosome refined), bestFitness := Fitness (sa_fitness refined)\<rparr>
      else st)"

definition resultOf :: "optimizer \<Rightarrow> opt_result" where
  "resultOf st = \<lparr>solution = bestSolution st, fitnessOf = bestFitness st, history = fitnessHistory st\<rparr>"

text \<open>
  After the loop: unless the run was stopped, the polish; then \<^verbatim>\<open>isRunning\<close> is cleared and the
  result object built.
\<close>

definition finish :: "optimizer \<Rightarrow> rng \<Rightarrow> nat \<Rightarrow> optimizer \<times> (failure + opt_result)" where
  "finish st rs k =
     (if isRunning st
      then (case bestSolution st of
              None \<Rightarrow> (st, Inl (Thrown TypeError))
            | Some b \<Rightarrow>
               (case simulatedAnnealing st rs k b (saIterations st) of
                  Inl e \<Rightarrow> (st, Inl (Thrown e))
                | Inr (refined, k') \<Rightarrow>
                   (let st' = (polish st refined)\<lparr>isRunning := False\<rparr>
                    in (st', Inr (resultOf st')))))
      else (let st' = st\<lparr>isRunning := False\<rparr> in (st', Inr (resultOf st'))))"

text \<open>
  The browser's \<^verbatim>\<open>optimize\<close>. It is an \<^verbatim>\<open>async\<close> function: an exception rejects the promise it
  returns. The result pairs the optimizer as the call leaves it with the error or the returned
  object; \<open>None\<close> is a call that never ends.
\<close>

definition optimize :: "optimizer \<Rightarrow> rng \<Rightarrow> (nat \<Rightarrow> bool) \<Rightarrow> (optimizer \<times> (failure + opt_result)) option" where
  "optimize st rs stops =
     (if venue st = None \<or> attendees st = [] then Some (st, Inl ConfigError)
      else (let st1 = st\<lparr>isRunning := True, fitnessHistory := []\<rparr>
            in case initializePopulation st1 rs 0 of
                 Inl e \<Rightarrow> Some (st1, Inl (Thrown e))
               | Inr (population, k) \<Rightarrow>
                  (case mapFitness st1 population of
                     Inl e \<Rightarrow> Some (st1, Inl (Thrown e))
                   | Inr fitnessValues \<Rightarrow>
                      (if population = [] then Some (st1, Inl (Thrown TypeError))
                       else (let bestIdx = bestIndex fitnessValues;
                                 st2 = st1\<lparr>bestSolution := Some (population ! bestIdx),
                                           bestFitness := Fitness (fitnessValues ! bestIdx)\<rparr>
                             in case generationLoop rs stops (totalGenerations st2) 0 k st2
                                       population fitnessValues of
                                  None \<Rightarrow> None
                                | Some (st3, Inl e) \<Rightarrow> Some (st3, Inl (Thrown e))
                                | Some (st3, Inr k') \<Rightarrow> Some (finish st3 rs k'))))))"

section \<open>The server's driver\<close>

text \<open>
  The server file has the same generators, selection, crossover and driver, with three
  differences: its \<^verbatim>\<open>mutate\<close> has a fixed rate and no block swap, there is no smart mutation, and
  its loop has no stop flag, callback or yield.
\<close>

fun mutateTimes_server :: "optimizer \<Rightarrow> rng \<Rightarrow> nat \<Rightarrow> nat \<Rightarrow> jsarray \<Rightarrow> jsarray \<times> nat" where
  "mutateTimes_server st rs 0 k a = (a, k)"
| "mutateTimes_server st rs (Suc n) k a =
     (case mutate_server st rs k a of (a', k') \<Rightarrow> mutateTimes_server st rs n k' a')"

fun greedyPart_server :: "optimizer \<Rightarrow> rng \<Rightarrow> nat \<Rightarrow> nat \<Rightarrow> chromosome list \<Rightarrow> exn + chromosome list \<times> nat" where
  "greedyPart_server st rs 0 k population = Inr (population, k)"
| "greedyPart_server st rs (Suc n) k population =
     (case generateGreedySolution st of
        Inl e \<Rightarrow> Inl e
      | Inr greedy \<Rightarrow>
         (case mutateTimes_server st rs 5 k (newArray greedy) of
            (mutated, k') \<Rightarrow> greedyPart_server st rs n k' (population @ [items mutated])))"

definition initializePopulation_server :: "optimizer \<Rightarrow> rng \<Rightarrow> nat \<Rightarrow> exn + chromosome list \<times> nat" where
  "initializePopulation_server st rs k =
     (case greedyPart_server st rs (nat \<lfloor>real_of_int (populationSize (config st)) * 0.2\<rfloor>) k [] of
        Inl e \<Rightarrow> Inl e
      | Inr (population, k') \<Rightarrow>
          randomPart st rs (nat (populationSize (config st) - int (length population))) k'
            population)"

fun mapFitness_server :: "optimizer \<Rightarrow> chromosome list \<Rightarrow> exn + fitness list" where
  "mapFitness_server st [] = Inr []"
| "mapFitness_server st (c # cs) =
     (case calculateFitness_server st c of
        Inl e \<Rightarrow> Inl e
      | Inr f \<Rightarrow> (case mapFitness_server st cs of Inl e \<Rightarrow> Inl e | Inr fs \<Rightarrow> Inr (f # fs)))"

fun breed_server :: "optimizer \<Rightarrow> rng \<Rightarrow> nat \<Rightarrow> nat \<Rightarrow> chromosome list \<Rightarrow> fitness list \<Rightarrow> chromosome list
    \<Rightarrow> (exn + chromosome list \<times> nat) option" where
  "breed_server st rs 0 k population fitnessValues newPopulation = Some (Inr (newPopulation, k))"
| "breed_server st rs (Suc need) k population fitnessValues newPopulation =
     (case tournamentSelect st rs k population fitnessValues of
        Inl e \<Rightarrow> Some (Inl e)
      | Inr (p1, k1) \<Rightarrow>
         (case tournamentSelect st rs k1 population fitnessValues of
            Inl e \<Rightarrow> Some (Inl e)
          | Inr (p2, k2) \<Rightarrow>
             (case crossover st rs k2 p1 p2 of
                None \<Rightarrow> None
              | Some ((x1, x2), k3) \<Rightarrow>
                 (case mutate_server st rs k3 (newArray x1) of
                    (m1, k4) \<Rightarrow>
                     (case mutate_server st rs k4 (newArray x2) of
                        (m2, k5) \<Rightarrow>
                          (case need of
                             0 \<Rightarrow> Some (Inr (newPopulation @ [items m1], k5))
                           | Suc need' \<Rightarrow>
                               breed_server st rs need' k5 population fitnessValues
                                 (newPopulation @ [items m1, items m2])))))))"

definition generation_server :: "optimizer \<Rightarrow> rng \<Rightarrow> nat \<Rightarrow> nat \<Rightarrow> chromosome list \<Rightarrow> fitness list
    \<Rightarrow> (optimizer \<times> (exn + (chromosome list \<times> fitness list) \<times> nat)) option" where
  "generation_server st rs gen k population fitnessValues =
     (let st1 = st\<lparr>currentGeneration := int gen\<rparr>
      in case elites st1 (sortByFitness (zip population fitnessValues)) of
           Inl e \<Rightarrow> Some (st1, Inl e)
         | Inr kept \<Rightarrow>
            (case breed_server st1 rs (nat (populationSize (config st1) - int (length kept))) k
                    population fitnessValues kept of
               None \<Rightarrow> None
             | Some (Inl e) \<Rightarrow> Some (st1, Inl e)
             | Some (Inr (newPopulation, k')) \<Rightarrow>
                (case mapFitness_server st1 newPopulation of
                   Inl e \<Rightarrow> Some (st1, Inl e)
                 | Inr newFitness \<Rightarrow>
                    (let st2 = updateBest st1 newPopulation newFitness;
                         st3 = st2\<lparr>fitnessHistory :=
                                     fitnessHistory st2 @ [bestTotal (bestFitness st2)]\<rparr>
                     in Some (st3, Inr ((newPopulation, newFitness), k'))))))"

fun generationLoop_server :: "rng \<Rightarrow> nat \<Rightarrow> nat \<Rightarrow> nat \<Rightarrow> optimizer \<Rightarrow> chromosome list \<Rightarrow> fitness list
    \<Rightarrow> (optimizer \<times> (exn + nat)) option" where
  "generationLoop_server rs 0 gen k st population fitnessValues = Some (st, Inr k)"
| "generationLoop_server rs (Suc n) gen k st population fitnessValues =
     (case generation_server st rs gen k population fitnessValues of
        None \<Rightarrow> None
      | Some (st', Inl e) \<Rightarrow> Some (st', Inl e)
      | Some (st', Inr ((newPopulation, newFitness), k')) \<Rightarrow>
          generationLoop_server rs n (Suc gen) k' st' newPopulation newFitness)"

definition finish_server :: "optimizer \<Rightarrow> rng \<Rightarrow> nat \<Rightarrow> optimizer \<times> (failure + opt_result)" where
  "finish_server st rs k =
     (case bestSolution st of
        None \<Rightarrow> (st, Inl (Thrown TypeError))
      | Some b \<Rightarrow>
         (case simulatedAnnealing_server st rs k b (saIterations st) of
            Inl e \<Rightarrow> (st, Inl (Thrown e))
          | Inr (refined, k') \<Rightarrow> (polish st refined, Inr (resultOf (polish st refined)))))"

definition optimize_server :: "optimizer \<Rightarrow> rng \<Rightarrow> (optimizer \<times> (failure + opt_result)) option" where
  "optimize_server st rs =
     (if venue st = None \<or> attendees st = [] then Some (st, Inl ConfigError)
      else (let st1 = st\<lparr>isRunning := True, fitnessHistory := []\<rparr>
            in case initializePopulation_server st1 rs 0 of
                 Inl e \<Rightarrow> Some (st1, Inl (Thrown e))
               | Inr (population, k) \<Rightarrow>
                  (case mapFitness_server st1 population of
                     Inl e \<Rightarrow> Some (st1, Inl (Thrown e))
                   | Inr fitnessValues \<Rightarrow>
                      (if population = [] then Some (st1, Inl (Thrown TypeError))
                       else (let bestIdx = bestIndex fitnessValues;
                                 st2 = st1\<lparr>bestSolution := Some (population ! bestIdx),
                                           bestFitness := Fitness (fitnessValues ! bestIdx)\<rparr>
                             in case generationLoop_server rs (totalGenerations st2) 0 k st2
                                       population fitnessValues of
                                  None \<Rightarrow> None
                                | Some (st3, Inl e) \<Rightarrow> Some (st3, Inl (Thrown e))
                                | Some (st3, Inr k') \<Rightarrow> Some (finish_server st3 rs k'))))))"

section \<open>Predicates used by the theorems\<close>

text \<open>
  The weights the fitness function is meant for: four non-negative numbers with a positive sum.
\<close>

definition validWeights :: "weights \<Rightarrow> bool" where
  "validWeights w =
     (case (friendProximityW w, vipPlacementW w, groupCohesionW w, stageDistanceW w) of
        (Num a, Num b, Num c, Num d) \<Rightarrow> 0 \<le> a \<and> 0 \<le> b \<and> 0 \<le> c \<and> 0 \<le> d \<and> 0 < a + b + c + d
      | _ \<Rightarrow> False)"

text \<open>
  An optimizer whose venue was built by \<^verbatim>\<open>setVenue(R, C, V)\<close> and whose attendee list, group map
  and friendship map were built by \<^verbatim>\<open>setAttendees(raws)\<close>; the configuration is left free
  (\<^verbatim>\<open>updateWeights\<close> and \<^verbatim>\<open>setMode\<close> may have run in between).
\<close>

definition prepared :: "optimizer \<Rightarrow> int \<Rightarrow> int \<Rightarrow> int \<Rightarrow> raw_attendee list \<Rightarrow> bool" where
  "prepared st R C V raws =
     (venue st = venue (setVenue st R C V)
      \<and> attendees st = attendees (setAttendees st raws)
      \<and> groups st = groups (setAttendees st raws)
      \<and> friendships st = friendships (setAttendees st raws))"

definition nonnegPriority :: "raw_attendee \<Rightarrow> bool" where
  "nonnegPriority a = (case raw_priority a of None \<Rightarrow> True | Some p \<Rightarrow> 0 \<le> p)"

definition fmembers :: "(nat \<times> nat list) list \<Rightarrow> nat set" where
  "fmembers fs = (\<Union>x\<in>set fs. insert (fst x) (set (snd x)))"

definition decodeEntry :: "int \<Rightarrow> int \<Rightarrow> chromosome \<Rightarrow> nat \<times> attendee \<Rightarrow> plan_entry" where
  "decodeEntry C V A ia =
     \<lparr>entry_attendee = snd ia,
      entry_seat =
        planSeat (mkSeat C V (the (chromGet A (fst ia)) div C) (the (chromGet A (fst ia)) mod C))\<rparr>"

section \<open>Example inputs\<close>

definition noOptions :: options where
  "noOptions =
     \<lparr>opt_populationSize = None, opt_generations = None, opt_mutationRate = None,
      opt_crossoverRate = None, opt_elitismCount = None, opt_tournamentSize = None,
      opt_initialTemp = None, opt_coolingRate = None, opt_minTemp = None, opt_mode = None,
      opt_friendWeight = None, opt_vipWeight = None, opt_groupWeight = None,
      opt_distanceWeight = None\<rparr>"

definition guest :: "string \<Rightarrow> string option \<Rightarrow> raw_attendee" where
  "guest t g =
     \<lparr>raw_id = None, raw_type = t, raw_group = g, raw_preference = ''any'', raw_priority = None\<rparr>"

text \<open>A hall of 2 rows of 7 seats, the first row VIP, with a single regular guest.\<close>

definition hall :: optimizer where
  "hall = setAttendees (setVenue (SeatOptimizer noOptions) 2 7 1) [guest ''regular'' None]"

text \<open>
  A club of 2 rows of 5 seats, the first row VIP, with a VIP guest, two friends (group \<open>g\<close>) and a
  fourth guest; in \<open>clubSeating\<close> the VIP sits in the second row (seat 5), the friends sit in
  opposite corners (seats 0 and 9) and the fourth guest sits beside the second friend (seat 8).
\<close>

definition clubGuests :: "raw_attendee list" where
  "clubGuests =
     [guest ''vip'' None, guest ''regular'' (Some ''g''), guest ''regular'' (Some ''g''),
      guest ''regular'' None]"

definition club :: optimizer where
  "club = setAttendees (setVenue (SeatOptimizer noOptions) 2 5 1) clubGuests"

definition clubSeating :: chromosome where
  "clubSeating = [Some 5, Some 0, Some 9, Some 8]"

text \<open>One array is a swap of two cells of the other.\<close>

definition swapOf :: "chromosome \<Rightarrow> chromosome \<Rightarrow> bool" where
  "swapOf c c' = (\<exists>i j. i < length c \<and> j < length c \<and> c' = c[i := c ! j, j := c ! i])"

text \<open>Random sequences that repeat one number.\<close>

definition rng0 :: rng where
  "rng0 = (\<lambda>k. rand0)"

definition rngHalf :: rng where
  "rngHalf = (\<lambda>k. randHalf)"

definition rng9 :: rng where
  "rng9 = (\<lambda>k. rand9)"

text \<open>
  What the annealer keeps: a valid assignment, or any array at all when there is no attendee.
\<close>

definition seatable :: "int \<Rightarrow> nat \<Rightarrow> chromosome \<Rightarrow> bool" where
  "seatable n N c = (N = 0 \<or> validAssignment n N c)"

text \<open>A sequence of numbers in which no entry is followed by a smaller one.\<close>

definition nondecreasing :: "jsnum list \<Rightarrow> bool" where
  "nondecreasing h = (\<forall>k. k + 1 < length h \<longrightarrow> js_ge (h ! (k + 1)) (h ! k))"

text \<open>
  What the generation loop keeps: the best total is a number, every recorded total is a number
  not above it, and the record is non-decreasing.
\<close>

definition historyInv :: "optimizer \<Rightarrow> bool" where
  "historyInv s =
     (\<exists>b. bestTotal (bestFitness s) = Num b
          \<and> (\<forall>x \<in> set (fitnessHistory s). \<exists>t. x = Num t \<and> t \<le> b)
          \<and> nondecreasing (fitnessHistory s))"

text \<open>
  A one-seat venue with one guest and a population of one chromosome, kept by elitism, for two
  generations; the initial temperature equals the minimum, so the annealer makes no step.
\<close>

definition soloOptions :: options where
  "soloOptions =
     noOptions\<lparr>opt_populationSize := Some 1, opt_elitismCount := Some 1, opt_generations := Some 2,
               opt_initialTemp := Some 1\<rparr>"

definition solo :: optimizer where
  "solo = setAttendees (setVenue (SeatOptimizer soloOptions) 1 1 1) [guest ''regular'' None]"

definition noStops :: "nat \<Rightarrow> bool" where
  "noStops = (\<lambda>gen. False)"


text \<open>
  What the annealing loop keeps: both chromosomes stay seatable, the recorded best fitness is the
  fitness of the recorded best chromosome, and its total is a number not below the total at entry.
\<close>

definition saInv :: "optimizer \<Rightarrow> int \<Rightarrow> nat \<Rightarrow> real \<Rightarrow> sa_state \<Rightarrow> bool" where
  "saInv st n N t0 s =
     (seatable n N (current s) \<and> seatable n N (best s)
      \<and> calculateFitness st (best s) = Inr (bestFit s)
      \<and> (\<exists>t. total (bestFit s) = Num t \<and> t0 \<le> t))"


text \<open>A random sequence that starts with the listed numbers and goes on with zeros.\<close>

definition rngOf :: "rand list \<Rightarrow> rng" where
  "rngOf xs = (\<lambda>k. if k < length xs then xs ! k else rand0)"

text \<open>
  Draws for one call of \<^verbatim>\<open>mutate\<close>: the rate test passes, both swap indices are 0, the block swap is
  taken, its length is \<open>\<lfloor>0.9 * 5\<rfloor> + 2 = 6\<close>, and its two starts are drawn from 0.5 and 0.
\<close>

definition blockDraws :: rng where
  "blockDraws = rngOf [rand0, rand0, rand0, rand0, rand9, randHalf, rand0]"

text \<open>
  A venue of one seat with two guests, default options; and the same optimizer as \<^verbatim>\<open>optimize\<close> leaves
  it after its first two assignments.
\<close>

definition crowded :: optimizer where
  "crowded = setAttendees (setVenue (SeatOptimizer noOptions) 1 1 1)
               [guest ''regular'' None, guest ''regular'' None]"

definition crowdedRun :: optimizer where
  "crowdedRun = crowded\<lparr>isRunning := True, fitnessHistory := []\<rparr>"

section \<open>The seat table\<close>

lemma length_grid: "length (concat (map (\<lambda>r. map (g r) [0..<n]) [0..<m])) = m * n"
  by (induction m) simp_all

lemma grid_index_less: "r < m \<Longrightarrow> c < n \<Longrightarrow> r * n + c < m * (n::nat)"
proof -
  assume "r < m" "c < n"
  then have "r * n + c < r * n + n" by simp
  also have "\<dots> = Suc r * n" by simp
  also have "\<dots> \<le> m * n" using \<open>r < m\<close> by (intro mult_le_mono1) simp
  finally show ?thesis .
qed

lemma nth_grid:
  "r < m \<Longrightarrow> c < n \<Longrightarrow> concat (map (\<lambda>r. map (g r) [0..<n]) [0..<m]) ! (r * n + c) = g r c"
proof (induction m)
  case 0
  then show ?case by simp
next
  case (Suc m)
  show ?case
  proof (cases "r < m")
    case True
    then have "r * n + c < m * n" using Suc.prems(2) by (rule grid_index_less)
    then show ?thesis using Suc.IH True Suc.prems(2)
      by (simp add: nth_append length_grid)
  next
    case False
    then have "r = m" using Suc.prems(1) by simp
    then show ?thesis using Suc.prems(2)
      by (simp add: nth_append length_grid)
  qed
qed

lemma length_seats_mkVenue: "length (seats (mkVenue R C V)) = nat R * nat C"
  by (simp add: mkVenue_def length_grid)

lemma seatAt_mkVenue:
  assumes "0 \<le> p" "p < R * C" "0 \<le> R"
  shows "seatAt (mkVenue R C V) (Some p) = Some (mkSeat C V (p div C) (p mod C))"
proof -
  have Cpos: "0 < C" using assms by (smt (verit) mult_nonneg_nonpos)
  have Rpos: "0 < R" using assms Cpos by (smt (verit) mult_nonpos_nonneg mult_zero_left)
  define r where "r = nat (p div C)"
  define c where "c = nat (p mod C)"
  have c: "c < nat C" using Cpos by (simp add: c_def nat_less_iff)
  have "p div C < R"
  proof (rule ccontr)
    assume "\<not> p div C < R"
    then have "R * C \<le> (p div C) * C" using Cpos by (intro mult_right_mono) simp_all
    moreover have "0 \<le> p mod C" using Cpos by simp
    moreover have "(p div C) * C + p mod C = p" by simp
    ultimately show False using assms(2) by linarith
  qed
  moreover have "0 \<le> p div C" using assms Cpos by (simp add: pos_imp_zdiv_nonneg_iff)
  ultimately have r: "r < nat R" by (simp add: r_def nat_less_iff)
  have "p = (p div C) * C + p mod C" by simp
  then have "nat p = r * nat C + c"
    using \<open>0 \<le> p div C\<close> Cpos assms(1)
    by (metis c_def r_def nat_add_distrib nat_mult_distrib pos_mod_sign mult_nonneg_nonneg less_imp_le)
  moreover have "int r = p div C" "int c = p mod C"
    using \<open>0 \<le> p div C\<close> Cpos by (simp_all add: r_def c_def)
  moreover have "p < int (nat R * nat C)" using assms Rpos Cpos by (simp add: nat_mult_distrib[symmetric])
  ultimately show ?thesis
    using nth_grid[OF r c, of "\<lambda>r c. mkSeat C V (int r) (int c)"] assms(1)
    by (simp add: seatAt_def length_seats_mkVenue) (simp add: mkVenue_def)
qed


lemma validAssignment_cell:
  "validAssignment n N A \<Longrightarrow> i < N \<Longrightarrow> \<exists>p. chromGet A i = Some p \<and> 0 \<le> p \<and> p < n"
  by (auto simp: validAssignment_def chromGet_def list_all_length split: option.splits)

lemma planLoop_mkVenue:
  assumes "0 \<le> R"
    and "\<forall>i. k \<le> i \<and> i < k + length as \<longrightarrow> (\<exists>p. chromGet A i = Some p \<and> 0 \<le> p \<and> p < R * C)"
  shows "planLoop (Some (mkVenue R C V)) A (enumerate k as) = Inr (map (decodeEntry C V A) (enumerate k as))"
  using assms(2)
proof (induction as arbitrary: k)
  case Nil
  then show ?case by simp
next
  case (Cons a as)
  obtain p where p: "chromGet A k = Some p" "0 \<le> p" "p < R * C"
    using Cons.prems by force
  have "planLoop (Some (mkVenue R C V)) A (enumerate (Suc k) as) = Inr (map (decodeEntry C V A) (enumerate (Suc k) as))"
    using Cons.prems by (intro Cons.IH) auto
  then show ?case
    using p seatAt_mkVenue[OF p(2) p(3) assms(1), of V]
    by (simp add: decodeEntry_def)
qed

section \<open>The two copies of the fitness function\<close>

lemma getSeatDistance_server_eq: "getSeatDistance_server a b = getSeatDistance a b"
  by (simp add: getSeatDistance_server_def getSeatDistance_def split: option.splits)

lemma friendsInner_server_eq: "friendsInner_server v c sa fs acc = friendsInner v c sa fs acc"
proof (induction fs arbitrary: acc)
  case Nil
  then show ?case by (cases acc) simp
next
  case (Cons f fs)
  then show ?case
    by (cases acc) (simp add: getSeatDistance_server_eq friendPoints_def split: sum.splits)
qed

lemma friendsOuter_server_eq: "friendsOuter_server v c fr acc = friendsOuter v c fr acc"
  by (induction fr arbitrary: acc) (auto simp: friendsInner_server_eq split: sum.splits)

lemma attendeesLoop_server_eq:
  "attendeesLoop_server v c (maxVenueDist v) as acc = attendeesLoop v c as acc"
proof (induction as arbitrary: acc)
  case Nil
  then show ?case by simp
next
  case (Cons x as)
  obtain idx a where x: "x = (idx, a)" by (cases x)
  show ?case
  proof (cases "seatAt v (chromGet c idx)")
    case None
    then show ?thesis by (simp add: x)
  next
    case (Some s)
    have "attendeeStep v a s acc =
        (let acc1 =
                 (if type a = ''vip''
                  then acc\<lparr>maxVipScore := maxVipScore acc + 20,
                           vipPlacementScore :=
                             (if isVip s then vipPlacementScore acc + 20
                              else vipPlacementScore acc + max 0 (10 - real_of_int (row s) * 2))\<rparr>
                  else acc);
               priorityFactor = priority a / 10;
               maxPointsForPerson = 10 * priorityFactor;
               acc2 = acc1\<lparr>maxDistanceScore := maxDistanceScore acc1 + maxPointsForPerson\<rparr>;
               distRatio = distanceToStage s / maxVenueDist v;
               personScore = max 0 ((1 - distRatio) * maxPointsForPerson)
           in acc2\<lparr>stageDistanceScore := stageDistanceScore acc2 + personScore\<rparr>)"
      by (cases acc) (simp add: attendeeStep_def Let_def)
    then show ?thesis using Some Cons.IH by (simp add: x Let_def)
  qed
qed

lemma pairsInner_server_eq: "pairsInner_server s ts k = pairsInner s ts k"
  by (induction ts arbitrary: k)
     (auto simp: getSeatDistance_server_eq pairPoints_def split: sum.splits)

lemma pairsOuter_server_eq: "pairsOuter_server ss k = pairsOuter ss k"
  by (induction ss arbitrary: k) (auto simp: pairsInner_server_eq split: sum.splits)

lemma groupsLoop_server_eq: "groupsLoop_server v c gs acc = groupsLoop v c gs acc"
proof (induction gs arbitrary: acc)
  case Nil
  then show ?case by simp
next
  case (Cons x gs)
  obtain g members where x: "x = (g, members)" by (cases x)
  obtain s m where acc: "acc = (s, m)" by (cases acc)
  show ?case using Cons.IH
    by (simp add: x acc pairsOuter_server_eq groupScore_def Let_def split: sum.splits)
qed

lemma calculateFitness_server_is_browser:
  "calculateFitness_server st chromosome = calculateFitness st chromosome"
  by (simp add: calculateFitness_server_def calculateFitness_def friendsOuter_server_eq
      attendeesLoop_server_eq[unfolded maxVenueDist_def] groupsLoop_server_eq normalize_def
      weightedTotal_def Let_def
      split: option.splits sum.splits prod.splits)

section \<open>Sub-scores and their maxima\<close>

lemma friendsOuter_no_pairs:
  "\<forall>x \<in> set fr. snd x = [] \<Longrightarrow> friendsOuter v c fr acc = Inr acc"
  by (induction fr arbitrary: acc) auto

lemma attendeesLoop_no_vip:
  "attendeesLoop v c as acc = Inr acc' \<Longrightarrow> \<forall>x \<in> set as. type (snd x) \<noteq> ''vip''
     \<Longrightarrow> maxVipScore acc' = maxVipScore acc"
proof (induction as arbitrary: acc)
  case Nil
  then show ?case by simp
next
  case (Cons x as)
  obtain idx a where x: "x = (idx, a)" by (cases x)
  from Cons.prems(1) obtain s where s: "seatAt v (chromGet c idx) = Some s"
    and rest: "attendeesLoop v c as (attendeeStep v a s acc) = Inr acc'"
    by (auto simp: x split: option.splits)
  have "maxVipScore acc' = maxVipScore (attendeeStep v a s acc)"
    using Cons.IH[OF rest] Cons.prems(2) by simp
  then show ?case using Cons.prems(2) by (simp add: x attendeeStep_def Let_def)
qed

lemma groupsLoop_no_groups:
  "\<forall>x \<in> set gs. length (snd x) \<le> 1 \<Longrightarrow> groupsLoop v c gs acc = Inr acc"
  by (induction gs arbitrary: acc) auto

lemma calculateFitness_InrD:
  assumes "calculateFitness st c = Inr f"
  obtains v fr acc gr where "venue st = Some v"
    and "friendsOuter v c (friendships st) (0, 0) = Inr fr"
    and "attendeesLoop v c (enumerate 0 (attendees st)) emptyAcc = Inr acc"
    and "groupsLoop v c (groups st) (0, 0) = Inr gr"
    and "friendProximity f = normalize (fst fr) (snd fr)"
    and "vipPlacement f = normalize (vipPlacementScore acc) (maxVipScore acc)"
    and "groupCohesion f = normalize (fst gr) (snd gr)"
    and "stageDistance f = normalize (stageDistanceScore acc) (maxDistanceScore acc)"
    and "total f = weightedTotal (weights (config st)) (friendProximity f) (vipPlacement f)
                     (groupCohesion f) (stageDistance f)"
  using assms unfolding calculateFitness_def
  by (auto simp: Let_def split: option.splits sum.splits)

section \<open>Bounds of the fitness record\<close>

lemma friendPoints_bounds: "0 \<le> friendPoints d \<and> friendPoints d \<le> 10"
  by (simp add: friendPoints_def)

lemma friendsInner_bounds:
  "friendsInner v c sa fs acc = Inr acc' \<Longrightarrow> 0 \<le> fst acc \<and> fst acc \<le> snd acc
     \<Longrightarrow> 0 \<le> fst acc' \<and> fst acc' \<le> snd acc'"
proof (induction fs arbitrary: acc)
  case Nil
  then show ?case by simp
next
  case (Cons f fs)
  from Cons.prems(1) obtain d where
    rest: "friendsInner v c sa fs (fst acc + friendPoints d, snd acc + 10) = Inr acc'"
    by (auto split: sum.splits)
  show ?case
    using Cons.IH[OF rest] Cons.prems(2) friendPoints_bounds[of d] by simp
qed

lemma friendsOuter_bounds:
  "friendsOuter v c fr acc = Inr acc' \<Longrightarrow> 0 \<le> fst acc \<and> fst acc \<le> snd acc
     \<Longrightarrow> 0 \<le> fst acc' \<and> fst acc' \<le> snd acc'"
proof (induction fr arbitrary: acc)
  case Nil
  then show ?case by simp
next
  case (Cons x fr)
  obtain a fs where x: "x = (a, fs)" by (cases x)
  from Cons.prems(1) obtain acc1 where
    1: "friendsInner v c (seatAt v (chromGet c a)) fs acc = Inr acc1"
    and 2: "friendsOuter v c fr acc1 = Inr acc'"
    by (auto simp: x split: sum.splits)
  show ?case using Cons.IH[OF 2] friendsInner_bounds[OF 1 Cons.prems(2)] by simp
qed

lemma normalize_bounds: "0 \<le> s \<Longrightarrow> s \<le> m \<Longrightarrow> 0 \<le> normalize s m \<and> normalize s m \<le> 1"
  by (simp add: normalize_def)

lemma groupScore_bounds: "0 \<le> k \<Longrightarrow> 0 \<le> groupScore m k \<and> groupScore m k \<le> real m * 10"
  by (simp add: groupScore_def Let_def)

lemma pairsInner_nonneg: "pairsInner s ts k = Inr k' \<Longrightarrow> 0 \<le> k \<Longrightarrow> 0 \<le> k'"
proof (induction ts arbitrary: k)
  case Nil
  then show ?case by simp
next
  case (Cons t ts)
  from Cons.prems(1) obtain d where "pairsInner s ts (k + pairPoints d) = Inr k'"
    by (auto split: sum.splits)
  moreover have "0 \<le> k + pairPoints d" using Cons.prems(2) by (simp add: pairPoints_def)
  ultimately show ?case by (rule Cons.IH)
qed

lemma pairsOuter_nonneg: "pairsOuter ss k = Inr k' \<Longrightarrow> 0 \<le> k \<Longrightarrow> 0 \<le> k'"
proof (induction ss arbitrary: k)
  case Nil
  then show ?case by simp
next
  case (Cons s ss)
  from Cons.prems(1) obtain k1 where 1: "pairsInner s ss k = Inr k1" and 2: "pairsOuter ss k1 = Inr k'"
    by (auto split: sum.splits)
  show ?case using Cons.IH[OF 2] pairsInner_nonneg[OF 1 Cons.prems(2)] by simp
qed

lemma groupsLoop_bounds:
  "groupsLoop v c gs acc = Inr acc' \<Longrightarrow> 0 \<le> fst acc \<and> fst acc \<le> snd acc
     \<Longrightarrow> 0 \<le> fst acc' \<and> fst acc' \<le> snd acc'"
proof (induction gs arbitrary: acc)
  case Nil
  then show ?case by simp
next
  case (Cons x gs)
  obtain g ms where x: "x = (g, ms)" by (cases x)
  show ?case
  proof (cases "length ms \<le> 1")
    case True
    then show ?thesis using Cons by (simp add: x)
  next
    case False
    with Cons.prems(1) obtain k where
      k: "pairsOuter (sortSeats (map (\<lambda>idx. seatAt v (chromGet c idx)) ms)) 0 = Inr k"
      and rest: "groupsLoop v c gs (fst acc + groupScore (length ms) k, snd acc + real (length ms) * 10) = Inr acc'"
      by (auto simp: x split: sum.splits)
    have "0 \<le> k" using pairsOuter_nonneg[OF k] by simp
    then show ?thesis
      using Cons.IH[OF rest] Cons.prems(2) groupScore_bounds[of k "length ms"] by simp
  qed
qed

lemma mkVenue_seat:
  "s \<in> set (seats (mkVenue R C V)) \<Longrightarrow> \<exists>r c. s = mkSeat C V (int r) (int c)"
  by (auto simp: mkVenue_def)

lemma seatAt_mkVenue_good:
  assumes "seatAt (mkVenue R C V) x = Some s"
  shows "0 \<le> distanceToStage s \<and> 0 \<le> row s"
proof -
  from assms have "s \<in> set (seats (mkVenue R C V))"
    by (auto simp: seatAt_def split: option.splits if_splits)
  then obtain r c where "s = mkSeat C V (int r) (int c)" using mkVenue_seat by blast
  then show ?thesis by (simp add: mkSeat_def)
qed

lemma attendeeStep_bounds:
  assumes "0 \<le> distanceToStage s" "0 \<le> row s" "0 \<le> priority a"
    and "0 \<le> vipPlacementScore acc \<and> vipPlacementScore acc \<le> maxVipScore acc"
    and "0 \<le> stageDistanceScore acc \<and> stageDistanceScore acc \<le> maxDistanceScore acc"
  shows "0 \<le> vipPlacementScore (attendeeStep v a s acc)
       \<and> vipPlacementScore (attendeeStep v a s acc) \<le> maxVipScore (attendeeStep v a s acc)
       \<and> 0 \<le> stageDistanceScore (attendeeStep v a s acc)
       \<and> stageDistanceScore (attendeeStep v a s acc) \<le> maxDistanceScore (attendeeStep v a s acc)"
proof -
  have mv: "0 \<le> maxVenueDist v" by (simp add: maxVenueDist_def)
  have ratio: "0 \<le> distanceToStage s / maxVenueDist v" using assms(1) mv by simp
  define ps where "ps = max 0 ((1 - distanceToStage s / maxVenueDist v) * priority a)"
  define vp where "vp = max 0 (10 - real_of_int (row s) * 2)"
  have "(1 - distanceToStage s / maxVenueDist v) * priority a \<le> 1 * priority a"
    using ratio assms(3) by (intro mult_right_mono) simp_all
  then have ps: "0 \<le> ps" "ps \<le> priority a"
    using assms(3) by (simp_all add: ps_def)
  have vp: "0 \<le> vp" "vp \<le> 20" using assms(2) by (simp_all add: vp_def)
  have step: "attendeeStep v a s acc =
      \<lparr>vipPlacementScore =
             (if type a = ''vip''
              then vipPlacementScore acc + (if isVip s then 20 else vp)
              else vipPlacementScore acc),
           maxVipScore = (if type a = ''vip'' then maxVipScore acc + 20 else maxVipScore acc),
           stageDistanceScore = stageDistanceScore acc + ps,
           maxDistanceScore = maxDistanceScore acc + priority a\<rparr>"
    by (simp add: attendeeStep_def Let_def ps_def vp_def)
  show ?thesis using ps vp assms(4,5) by (simp add: step)
qed

lemma attendeesLoop_bounds:
  assumes "attendeesLoop (mkVenue R C V) c as acc = Inr acc'"
    and "\<forall>x \<in> set as. 0 \<le> priority (snd x)"
    and "0 \<le> vipPlacementScore acc \<and> vipPlacementScore acc \<le> maxVipScore acc"
    and "0 \<le> stageDistanceScore acc \<and> stageDistanceScore acc \<le> maxDistanceScore acc"
  shows "0 \<le> vipPlacementScore acc' \<and> vipPlacementScore acc' \<le> maxVipScore acc'
       \<and> 0 \<le> stageDistanceScore acc' \<and> stageDistanceScore acc' \<le> maxDistanceScore acc'"
  using assms
proof (induction as arbitrary: acc)
  case Nil
  then show ?case by simp
next
  case (Cons x as)
  obtain idx a where x: "x = (idx, a)" by (cases x)
  from Cons.prems(1) obtain s where s: "seatAt (mkVenue R C V) (chromGet c idx) = Some s"
    and rest: "attendeesLoop (mkVenue R C V) c as (attendeeStep (mkVenue R C V) a s acc) = Inr acc'"
    by (auto simp: x split: option.splits)
  have good: "0 \<le> distanceToStage s" "0 \<le> row s" using seatAt_mkVenue_good[OF s] by simp_all
  have pa: "0 \<le> priority a" using Cons.prems(2) by (simp add: x)
  note step = attendeeStep_bounds[OF good pa Cons.prems(3) Cons.prems(4), of "mkVenue R C V"]
  show ?case
    using Cons.IH[OF rest] Cons.prems(2) step by simp
qed

lemma weightedTotal_bounds:
  assumes "validWeights w" "0 \<le> a \<and> a \<le> 1" "0 \<le> b \<and> b \<le> 1" "0 \<le> c \<and> c \<le> 1" "0 \<le> d \<and> d \<le> 1"
  shows "\<exists>t. weightedTotal w a b c d = Num t \<and> 0 \<le> t \<and> t \<le> 1"
proof -
  from assms(1) obtain wa wb wc wd where w: "friendProximityW w = Num wa" "vipPlacementW w = Num wb"
      "groupCohesionW w = Num wc" "stageDistanceW w = Num wd"
    and nn: "0 \<le> wa" "0 \<le> wb" "0 \<le> wc" "0 \<le> wd" and pos: "0 < wa + wb + wc + wd"
    by (auto simp: validWeights_def split: jsnum.splits)
  have 1: "a * wa \<le> wa" "b * wb \<le> wb" "c * wc \<le> wc" "d * wd \<le> wd"
    using assms nn by (simp_all add: mult_left_le_one_le)
  have 2: "0 \<le> a * wa" "0 \<le> b * wb" "0 \<le> c * wc" "0 \<le> d * wd"
    using assms nn by simp_all
  have le: "a * wa + b * wb + c * wc + d * wd \<le> wa + wb + wc + wd" using 1 by linarith
  have ge: "0 \<le> a * wa + b * wb + c * wc + d * wd" using 2 by linarith
  have "weightedTotal w a b c d = Num ((a * wa + b * wb + c * wc + d * wd) / (wa + wb + wc + wd))"
    using pos by (simp add: weightedTotal_def w Let_def)
  moreover have "0 \<le> (a * wa + b * wb + c * wc + d * wd) / (wa + wb + wc + wd)"
    using ge pos by simp
  moreover have "(a * wa + b * wb + c * wc + d * wd) / (wa + wb + wc + wd) \<le> 1"
    using le pos by simp
  ultimately show ?thesis by blast
qed

lemma calculateFitness_bounds:
  assumes "calculateFitness st c = Inr f"
    and "venue st = Some (mkVenue R C V)"
    and "\<forall>a \<in> set (attendees st). 0 \<le> priority a"
  shows "0 \<le> friendProximity f \<and> friendProximity f \<le> 1
       \<and> 0 \<le> vipPlacement f \<and> vipPlacement f \<le> 1
       \<and> 0 \<le> groupCohesion f \<and> groupCohesion f \<le> 1
       \<and> 0 \<le> stageDistance f \<and> stageDistance f \<le> 1"
proof -
  from assms(1) obtain v fr acc gr where v: "venue st = Some v"
    and fr: "friendsOuter v c (friendships st) (0, 0) = Inr fr"
    and acc: "attendeesLoop v c (enumerate 0 (attendees st)) emptyAcc = Inr acc"
    and gr: "groupsLoop v c (groups st) (0, 0) = Inr gr"
    and f: "friendProximity f = normalize (fst fr) (snd fr)"
           "vipPlacement f = normalize (vipPlacementScore acc) (maxVipScore acc)"
           "groupCohesion f = normalize (fst gr) (snd gr)"
           "stageDistance f = normalize (stageDistanceScore acc) (maxDistanceScore acc)"
    by (rule calculateFitness_InrD)
  have v': "v = mkVenue R C V" using v assms(2) by simp
  have pr: "\<forall>x \<in> set (enumerate 0 (attendees st)). 0 \<le> priority (snd x)"
    using assms(3) by (auto simp: enumerate_eq_zip dest: set_zip_rightD)
  have a: "0 \<le> fst fr \<and> fst fr \<le> snd fr" using friendsOuter_bounds[OF fr] by simp
  have b: "0 \<le> fst gr \<and> fst gr \<le> snd gr" using groupsLoop_bounds[OF gr] by simp
  have c: "0 \<le> vipPlacementScore acc \<and> vipPlacementScore acc \<le> maxVipScore acc
       \<and> 0 \<le> stageDistanceScore acc \<and> stageDistanceScore acc \<le> maxDistanceScore acc"
    using attendeesLoop_bounds[OF acc[unfolded v'] pr] by (simp add: emptyAcc_def)
  show ?thesis
    using a b c normalize_bounds by (simp add: f)
qed

lemma calculateFitness_total:
  assumes "calculateFitness st c = Inr f"
    and "venue st = Some (mkVenue R C V)"
    and "\<forall>a \<in> set (attendees st). 0 \<le> priority a"
    and "validWeights (weights (config st))"
  shows "\<exists>t. total f = Num t \<and> 0 \<le> t \<and> t \<le> 1"
proof -
  have "total f = weightedTotal (weights (config st)) (friendProximity f) (vipPlacement f)
                     (groupCohesion f) (stageDistance f)"
    using assms(1) by (rule calculateFitness_InrD)
  then show ?thesis
    using weightedTotal_bounds[OF assms(4)] calculateFitness_bounds[OF assms(1,2,3)] by simp
qed

lemma groupsPush_members:
  "(\<Union>x\<in>set (groupsPush gs g i). set (snd x)) = insert i (\<Union>x\<in>set gs. set (snd x))"
  by (induction gs g i rule: groupsPush.induct) auto

lemma buildGroups_members_aux:
  "(\<Union>x\<in>set (foldl (\<lambda>gs a. case truthyGroup a of None \<Rightarrow> gs | Some g \<Rightarrow> groupsPush gs g (index a)) gs0 as). set (snd x))
     \<subseteq> (\<Union>x\<in>set gs0. set (snd x)) \<union> index ` set as"
proof (induction as arbitrary: gs0)
  case Nil
  then show ?case by simp
next
  case (Cons a as)
  show ?case
  proof (cases "truthyGroup a")
    case None
    then show ?thesis using Cons.IH[of gs0] by auto
  next
    case (Some g)
    then show ?thesis using Cons.IH[of "groupsPush gs0 g (index a)"]
      by (auto simp: groupsPush_members)
  qed
qed

lemma buildGroups_members: "(\<Union>x\<in>set (buildGroups as). set (snd x)) \<subseteq> index ` set as"
  using buildGroups_members_aux[of "[]" as] by (simp add: buildGroups_def)

lemma friendsUpdate_members:
  assumes "\<And>s. set (f s) \<subseteq> set s \<union> M"
  shows "fmembers (friendsUpdate fs k f) \<subseteq> insert k (fmembers fs \<union> M)"
proof (induction fs)
  case Nil
  then show ?case using assms[of "[]"] by (auto simp: fmembers_def)
next
  case (Cons x fs)
  obtain k' s where x: "x = (k', s)" by (cases x)
  show ?case using Cons assms[of s] by (auto simp: fmembers_def x)
qed

lemma setAdd_fold_members:
  "set (foldl (\<lambda>s m2. if m1 \<noteq> m2 then setAdd s m2 else s) s members) \<subseteq> set s \<union> set members"
proof (induction members arbitrary: s)
  case Nil
  then show ?case by simp
next
  case (Cons a members)
  define s' where "s' = (if m1 \<noteq> a then setAdd s a else s)"
  have "set s' \<subseteq> insert a (set s)"
    by (auto simp: setAdd_def s'_def)
  moreover have "foldl (\<lambda>s m2. if m1 \<noteq> m2 then setAdd s m2 else s) s (a # members)
      = foldl (\<lambda>s m2. if m1 \<noteq> m2 then setAdd s m2 else s) s' members"
    by (simp add: s'_def)
  ultimately show ?case using Cons.IH[of s'] by auto
qed

lemma addFriendsOf_members:
  "fmembers (addFriendsOf members fs m1) \<subseteq> insert m1 (fmembers fs \<union> set members)"
  unfolding addFriendsOf_def by (rule friendsUpdate_members) (rule setAdd_fold_members)

lemma addFriends_fold_members:
  "fmembers (foldl (addFriendsOf members) fs ms) \<subseteq> fmembers fs \<union> set members \<union> set ms"
proof (induction ms arbitrary: fs)
  case Nil
  then show ?case by simp
next
  case (Cons m ms)
  show ?case using Cons.IH[of "addFriendsOf members fs m"] addFriendsOf_members[of members fs m]
    by auto
qed

lemma buildFriendships_members_aux:
  "fmembers (foldl (\<lambda>fs (g, members). foldl (addFriendsOf members) fs members) fs0 gs)
     \<subseteq> fmembers fs0 \<union> (\<Union>x\<in>set gs. set (snd x))"
proof (induction gs arbitrary: fs0)
  case Nil
  then show ?case by simp
next
  case (Cons x gs)
  obtain g members where x: "x = (g, members)" by (cases x)
  show ?case
    using Cons.IH[of "foldl (addFriendsOf members) fs0 members"]
      addFriends_fold_members[of members fs0 members]
    by (auto simp: x)
qed

lemma buildFriendships_members: "fmembers (buildFriendships gs) \<subseteq> (\<Union>x\<in>set gs. set (snd x))"
  using buildFriendships_members_aux[of "[]" gs]
  by (simp add: buildFriendships_def fmembers_def)

lemma index_mkAttendees:
  "index ` set (map (\<lambda>(idx, a). mkAttendee idx a) (enumerate k raws)) = {k..<k + length raws}"
proof (induction raws arbitrary: k)
  case Nil
  then show ?case by simp
next
  case (Cons a raws)
  show ?case using Cons.IH[of "Suc k"] by (auto simp: mkAttendee_def)
qed

lemma setAttendees_length: "length (attendees (setAttendees st raws)) = length raws"
  by (simp add: setAttendees_def Let_def)

lemma setAttendees_groups_range:
  "x \<in> set (groups (setAttendees st raws)) \<Longrightarrow> m \<in> set (snd x) \<Longrightarrow> m < length raws"
  using buildGroups_members[of "map (\<lambda>(idx, a). mkAttendee idx a) (enumerate 0 raws)"]
    index_mkAttendees[of 0 raws]
  by (auto simp: setAttendees_def Let_def)

lemma setAttendees_friendships_range:
  assumes "x \<in> set (friendships (setAttendees st raws))"
  shows "fst x < length raws \<and> (\<forall>m \<in> set (snd x). m < length raws)"
proof -
  let ?atts = "map (\<lambda>(idx, a). mkAttendee idx a) (enumerate 0 raws)"
  have "fmembers (buildFriendships (buildGroups ?atts)) \<subseteq> {0..<length raws}"
    using buildFriendships_members[of "buildGroups ?atts"] buildGroups_members[of ?atts]
      index_mkAttendees[of 0 raws]
    by auto
  moreover have "insert (fst x) (set (snd x)) \<subseteq> fmembers (buildFriendships (buildGroups ?atts))"
    using assms by (auto simp: setAttendees_def Let_def fmembers_def)
  ultimately show ?thesis by auto
qed

lemma setAttendees_priority:
  assumes "\<forall>a \<in> set raws. nonnegPriority a" "a \<in> set (attendees (setAttendees st raws))"
  shows "0 \<le> priority a"
proof -
  from assms(2) obtain idx r where "r \<in> set raws" "a = mkAttendee idx r"
    by (auto simp: setAttendees_def Let_def enumerate_eq_zip dest: set_zip_rightD)
  then show ?thesis using assms(1)
    by (auto simp: mkAttendee_def orDefault_def nonnegPriority_def split: option.splits)
qed

lemma friendsInner_ok:
  assumes "sa \<noteq> None" "\<forall>f \<in> set fs. seatAt v (chromGet c f) \<noteq> None"
  shows "\<exists>acc'. friendsInner v c sa fs acc = Inr acc'"
  using assms(2)
proof (induction fs arbitrary: acc)
  case Nil
  then show ?case by simp
next
  case (Cons f fs)
  then obtain t where "seatAt v (chromGet c f) = Some t" by auto
  moreover obtain s where "sa = Some s" using assms(1) by auto
  ultimately show ?case using Cons by (simp add: getSeatDistance_def)
qed

lemma friendsOuter_ok:
  assumes "\<forall>x \<in> set fr. seatAt v (chromGet c (fst x)) \<noteq> None
             \<and> (\<forall>f \<in> set (snd x). seatAt v (chromGet c f) \<noteq> None)"
  shows "\<exists>acc'. friendsOuter v c fr acc = Inr acc'"
  using assms
proof (induction fr arbitrary: acc)
  case Nil
  then show ?case by simp
next
  case (Cons x fr)
  obtain a fs where x: "x = (a, fs)" by (cases x)
  obtain acc1 where "friendsInner v c (seatAt v (chromGet c a)) fs acc = Inr acc1"
    using friendsInner_ok[of "seatAt v (chromGet c a)" fs v c acc] Cons.prems by (auto simp: x)
  then show ?case using Cons by (simp add: x)
qed

lemma attendeesLoop_ok:
  assumes "\<forall>x \<in> set as. seatAt v (chromGet c (fst x)) \<noteq> None"
  shows "\<exists>acc'. attendeesLoop v c as acc = Inr acc'"
  using assms
proof (induction as arbitrary: acc)
  case Nil
  then show ?case by simp
next
  case (Cons x as)
  obtain idx a where x: "x = (idx, a)" by (cases x)
  then obtain s where "seatAt v (chromGet c idx) = Some s" using Cons.prems by auto
  then show ?case using Cons by (simp add: x)
qed

lemma pairsInner_ok:
  assumes "s \<noteq> None" "None \<notin> set ts"
  shows "\<exists>k'. pairsInner s ts k = Inr k'"
  using assms(2)
proof (induction ts arbitrary: k)
  case Nil
  then show ?case by simp
next
  case (Cons t ts)
  then obtain b where "t = Some b" by (cases t) auto
  moreover obtain a where "s = Some a" using assms(1) by auto
  ultimately show ?case using Cons by (simp add: getSeatDistance_def)
qed

lemma pairsOuter_ok: "None \<notin> set ss \<Longrightarrow> \<exists>k'. pairsOuter ss k = Inr k'"
proof (induction ss arbitrary: k)
  case Nil
  then show ?case by simp
next
  case (Cons s ss)
  have "s \<noteq> None" using Cons.prems by (cases s) auto
  moreover have "None \<notin> set ss" using Cons.prems by auto
  ultimately have "s \<noteq> None" "None \<notin> set ss" by blast+
  then obtain k1 where "pairsInner s ss k = Inr k1"
    using pairsInner_ok[of s ss k] by blast
  then show ?case using Cons by simp
qed

lemma sortSeats_no_None: "None \<notin> set xs \<Longrightarrow> None \<notin> set (sortSeats xs)"
  by (auto simp: sortSeats_def)

lemma groupsLoop_ok:
  assumes "\<forall>x \<in> set gs. \<forall>m \<in> set (snd x). seatAt v (chromGet c m) \<noteq> None"
  shows "\<exists>acc'. groupsLoop v c gs acc = Inr acc'"
  using assms
proof (induction gs arbitrary: acc)
  case Nil
  then show ?case by simp
next
  case (Cons x gs)
  obtain g ms where x: "x = (g, ms)" by (cases x)
  have "None \<notin> set (sortSeats (map (\<lambda>idx. seatAt v (chromGet c idx)) ms))"
    using Cons.prems by (intro sortSeats_no_None) (auto simp: x)
  then obtain k where "pairsOuter (sortSeats (map (\<lambda>idx. seatAt v (chromGet c idx)) ms)) 0 = Inr k"
    using pairsOuter_ok by blast
  then show ?case using Cons by (simp add: x)
qed

lemma valid_seatAt:
  assumes "0 \<le> R" "validAssignment (R * C) N A" "i < N"
  shows "seatAt (mkVenue R C V) (chromGet A i) \<noteq> None"
proof -
  obtain p where "chromGet A i = Some p" "0 \<le> p" "p < R * C"
    using validAssignment_cell[OF assms(2,3)] by blast
  then show ?thesis using seatAt_mkVenue[of p R C V] assms(1) by simp
qed

lemma calculateFitness_ok_seated:
  assumes "prepared st R C V raws"
    and seat: "\<And>i. i < length raws \<Longrightarrow> seatAt (mkVenue R C V) (chromGet A i) \<noteq> None"
  shows "\<exists>f. calculateFitness st A = Inr f"
proof -
  let ?v = "mkVenue R C V"
  have v: "venue st = Some ?v" using assms(1) by (simp add: prepared_def setVenue_def)
  have "\<forall>x \<in> set (friendships st). seatAt ?v (chromGet A (fst x)) \<noteq> None
             \<and> (\<forall>f \<in> set (snd x). seatAt ?v (chromGet A f) \<noteq> None)"
    using setAttendees_friendships_range[of _ st raws] assms(1) seat by (auto simp: prepared_def)
  then obtain fr where fr: "friendsOuter ?v A (friendships st) (0, 0) = Inr fr"
    using friendsOuter_ok by blast
  have "\<forall>x \<in> set (enumerate 0 (attendees st)). seatAt ?v (chromGet A (fst x)) \<noteq> None"
    using assms(1) seat by (auto simp: prepared_def setAttendees_length in_set_enumerate_eq)
  then obtain acc where acc: "attendeesLoop ?v A (enumerate 0 (attendees st)) emptyAcc = Inr acc"
    using attendeesLoop_ok by blast
  have "\<forall>x \<in> set (groups st). \<forall>m \<in> set (snd x). seatAt ?v (chromGet A m) \<noteq> None"
    using setAttendees_groups_range[of _ st raws] assms(1) seat by (auto simp: prepared_def)
  then obtain gr where gr: "groupsLoop ?v A (groups st) (0, 0) = Inr gr"
    using groupsLoop_ok by blast
  show ?thesis using v fr acc gr by (simp add: calculateFitness_def Let_def)
qed

lemma calculateFitness_ok:
  assumes "0 \<le> R" "prepared st R C V raws" "validAssignment (R * C) (length raws) A"
  shows "\<exists>f. calculateFitness st A = Inr f"
  using assms(2) valid_seatAt[OF assms(1,3)] by (rule calculateFitness_ok_seated)

section \<open>The example hall\<close>

lemma hall_prepared: "prepared hall 2 7 1 [guest ''regular'' None]"
  by (simp add: prepared_def hall_def setAttendees_def setVenue_def Let_def)

lemma hall_valid: "validAssignment (2 * 7) (length [guest ''regular'' None]) [Some 13]"
  by (simp add: validAssignment_def)

lemma hall_weights: "validWeights (weights (config hall))"
  by (simp add: hall_def setAttendees_def setVenue_def SeatOptimizer_def newOptimizer_def
      newConfig_def newWeights_def noOptions_def orDefault_def validWeights_def Let_def)

lemma hall_attendees: "attendees hall = [mkAttendee 0 (guest ''regular'' None)]"
  by (simp add: hall_def setAttendees_def Let_def enumerate_eq_zip)

lemma hall_maps: "groups hall = [] \<and> friendships hall = []"
  by (simp add: hall_def setAttendees_def Let_def enumerate_eq_zip buildGroups_def
      buildFriendships_def truthyGroup_def mkAttendee_def guest_def)

section \<open>Weights that sum to zero\<close>

lemma updateWeights_zero:
  "weights (config (updateWeights st 0 0 0 0))
     = \<lparr>friendProximityW = NaN, vipPlacementW = NaN, groupCohesionW = NaN, stageDistanceW = NaN\<rparr>"
  by (simp add: updateWeights_def Let_def)

lemma updateWeights_fields:
  "venue (updateWeights st a b c d) = venue st"
  "attendees (updateWeights st a b c d) = attendees st"
  "groups (updateWeights st a b c d) = groups st"
  "friendships (updateWeights st a b c d) = friendships st"
  by (simp_all add: updateWeights_def Let_def)

lemma calculateFitness_error_weights:
  "calculateFitness (updateWeights st a b c d) ch = Inl e \<longleftrightarrow> calculateFitness st ch = Inl e"
  by (simp add: calculateFitness_def updateWeights_fields Let_def
      split: option.splits sum.splits)

lemma zero_weights_total:
  assumes "calculateFitness (updateWeights st 0 0 0 0) ch = Inr f"
  shows "total f = NaN"
proof -
  have "total f = weightedTotal (weights (config (updateWeights st 0 0 0 0))) (friendProximity f)
      (vipPlacement f) (groupCohesion f) (stageDistance f)"
    using assms by (rule calculateFitness_InrD)
  then show ?thesis by (simp add: updateWeights_zero weightedTotal_def)
qed

lemma constructor_zero_weights:
  "weights (config (SeatOptimizer (cfg\<lparr>opt_friendWeight := Some 0, opt_vipWeight := Some 0,
       opt_groupWeight := Some 0, opt_distanceWeight := Some 0\<rparr>)))
     = \<lparr>friendProximityW = Num (30 / 100), vipPlacementW = Num (25 / 100),
        groupCohesionW = Num (25 / 100), stageDistanceW = Num (20 / 100)\<rparr>"
  by (simp add: SeatOptimizer_def newOptimizer_def newConfig_def newWeights_def orDefault_def)

lemma prepared_updateWeights:
  "prepared (updateWeights st a b c d) R C V raws = prepared st R C V raws"
  by (simp add: prepared_def updateWeights_fields setVenue_def setAttendees_def Let_def)

section \<open>Claims\<close>

text \<open>
  Claim C8. For a venue built by \<^verbatim>\<open>setVenue(R, C, V)\<close> and a valid assignment \<open>A\<close> of the attendees,
  \<^verbatim>\<open>getSeatingPlan(A)\<close> returns one entry per attendee, in order, and \<open>row * C + col\<close> of the
  \<open>i\<close>-th returned seat is \<open>A[i]\<close>; the seat at position \<open>r * C + c\<close> of the seat table has row \<open>r\<close>
  and column \<open>c\<close>; and a seat's \<^verbatim>\<open>seatId\<close> is the character with code \<open>65 + row\<close> (the letter
  \<open>A\<close>, \<open>B\<close>, ... for the first 26 rows) followed by the decimal text of \<open>col + 1\<close>.
\<close>

theorem getSeatingPlan_roundtrip:
  assumes "0 \<le> R"
    and "venue st = venue (setVenue st0 R C V)"
    and "validAssignment (R * C) (length (attendees st)) A"
  shows "\<exists>plan. getSeatingPlan st (Some A) = Inr (Some plan)
           \<and> length plan = length A
           \<and> (\<forall>i<length A.
                 entry_attendee (plan ! i) = attendees st ! i
               \<and> A ! i = Some (plan_row (entry_seat (plan ! i)) * C + plan_col (entry_seat (plan ! i)))
               \<and> seatId (entry_seat (plan ! i))
                   = fromCharCode (65 + plan_row (entry_seat (plan ! i)))
                     @ numToString (plan_col (entry_seat (plan ! i)) + 1)
               \<and> (plan_row (entry_seat (plan ! i)) < 26 \<longrightarrow>
                    fromCharCode (65 + plan_row (entry_seat (plan ! i)))
                    = [of_char (''ABCDEFGHIJKLMNOPQRSTUVWXYZ'' ! nat (plan_row (entry_seat (plan ! i))))]))
         \<and> (\<forall>r c. 0 \<le> r \<and> r < R \<and> 0 \<le> c \<and> c < C \<longrightarrow>
               (\<exists>s. seatAt (mkVenue R C V) (Some (r * C + c)) = Some s \<and> row s = r \<and> col s = c
                    \<and> seatId (planSeat s) = fromCharCode (65 + r) @ numToString (c + 1)))"
proof -
  let ?N = "length (attendees st)"
  let ?plan = "map (decodeEntry C V A) (enumerate 0 (attendees st))"
  have len: "length A = ?N" using assms(3) by (simp add: validAssignment_def)
  have cells: "\<forall>i. 0 \<le> i \<and> i < 0 + ?N \<longrightarrow> (\<exists>p. chromGet A i = Some p \<and> 0 \<le> p \<and> p < R * C)"
    using validAssignment_cell[OF assms(3)] by simp
  have v: "venue st = Some (mkVenue R C V)" using assms(2) by (simp add: setVenue_def)
  have plan: "getSeatingPlan st (Some A) = Inr (Some ?plan)"
    using planLoop_mkVenue[OF assms(1) cells, of V] v by (simp add: getSeatingPlan_def)
  have each: "entry_attendee (?plan ! i) = attendees st ! i
               \<and> A ! i = Some (plan_row (entry_seat (?plan ! i)) * C + plan_col (entry_seat (?plan ! i)))
               \<and> seatId (entry_seat (?plan ! i))
                   = fromCharCode (65 + plan_row (entry_seat (?plan ! i)))
                     @ numToString (plan_col (entry_seat (?plan ! i)) + 1)
               \<and> (plan_row (entry_seat (?plan ! i)) < 26 \<longrightarrow>
                    fromCharCode (65 + plan_row (entry_seat (?plan ! i)))
                    = [of_char (''ABCDEFGHIJKLMNOPQRSTUVWXYZ'' ! nat (plan_row (entry_seat (?plan ! i))))])"
    if i: "i < length A" for i
  proof -
    obtain p where p: "chromGet A i = Some p" "0 \<le> p" "p < R * C"
      using validAssignment_cell[OF assms(3)] i len by force
    have Ai: "A ! i = Some p" using p(1) i by (simp add: chromGet_def)
    have Cpos: "0 < C" using p assms(1) by (smt (verit) mult_nonneg_nonpos)
    have e: "?plan ! i = decodeEntry C V A (i, attendees st ! i)"
      using i len by (simp add: nth_enumerate_eq)
    have r0: "0 \<le> p div C" using p(2) Cpos by (simp add: pos_imp_zdiv_nonneg_iff)
    have letter: "fromCharCode (65 + r) = [of_char (''ABCDEFGHIJKLMNOPQRSTUVWXYZ'' ! nat r)]"
      if "0 \<le> r" "r < 26" for r :: int
    proof -
      have "r = 0 \<or> r = 1 \<or> r = 2 \<or> r = 3 \<or> r = 4 \<or> r = 5 \<or> r = 6 \<or> r = 7 \<or> r = 8
          \<or> r = 9 \<or> r = 10 \<or> r = 11 \<or> r = 12 \<or> r = 13 \<or> r = 14 \<or> r = 15 \<or> r = 16 \<or> r = 17
          \<or> r = 18 \<or> r = 19 \<or> r = 20 \<or> r = 21 \<or> r = 22 \<or> r = 23 \<or> r = 24 \<or> r = 25"
        using that by arith
      then show ?thesis
        unfolding fromCharCode_def by (elim disjE) simp_all
    qed
    show ?thesis
      using e p Ai r0 letter[OF r0]
      by (simp add: decodeEntry_def planSeat_def mkSeat_def)
  qed
  have grid: "\<exists>s. seatAt (mkVenue R C V) (Some (r * C + c)) = Some s \<and> row s = r \<and> col s = c
                    \<and> seatId (planSeat s) = fromCharCode (65 + r) @ numToString (c + 1)"
    if rc: "0 \<le> r \<and> r < R \<and> 0 \<le> c \<and> c < C" for r c
  proof -
    have "0 \<le> r * C + c" using rc by simp
    moreover have "r * C + c < R * C"
    proof -
      have "r * C + c < r * C + C" using rc by simp
      also have "\<dots> = (r + 1) * C" by (simp add: algebra_simps)
      also have "\<dots> \<le> R * C" using rc by (intro mult_right_mono) simp_all
      finally show ?thesis .
    qed
    moreover have "(r * C + c) div C = r" "(r * C + c) mod C = c" using rc by simp_all
    ultimately show ?thesis
      using seatAt_mkVenue[of "r * C + c" R C V] assms(1)
      by (simp add: mkSeat_def planSeat_def)
  qed
  show ?thesis using plan len each grid by (intro exI[of _ ?plan]) simp
qed

theorem getSeatingPlan_roundtrip_witness:
  "validAssignment (2 * 7) (length (attendees hall)) [Some 13]
   \<and> (\<exists>plan. getSeatingPlan hall (Some [Some 13]) = Inr (Some plan)
        \<and> length plan = 1
        \<and> plan_row (entry_seat (plan ! 0)) * 7 + plan_col (entry_seat (plan ! 0)) = 13)
   \<and> (\<exists>s. seatAt (mkVenue 2 7 1) (Some (1 * 7 + 6)) = Some s \<and> row s = 1 \<and> col s = 6
        \<and> seatId (planSeat s) = [66, 55])"
proof -
  have v: "venue hall = venue (setVenue hall 2 7 1)"
    using hall_prepared by (simp add: prepared_def)
  have a: "validAssignment (2 * 7) (length (attendees hall)) [Some 13]"
    using hall_valid by (simp add: hall_attendees)
  have n: "numToString (6 + 1) = [55]" by (simp add: numToString_def natToString.simps)
  have r: "(0::int) \<le> 2" by simp
  from getSeatingPlan_roundtrip[OF r v a] obtain plan where
    plan: "getSeatingPlan hall (Some [Some 13]) = Inr (Some plan)" "length plan = length [Some (13::int)]"
    and each: "\<forall>i<length [Some (13::int)].
                 entry_attendee (plan ! i) = attendees hall ! i
               \<and> [Some 13] ! i = Some (plan_row (entry_seat (plan ! i)) * 7 + plan_col (entry_seat (plan ! i)))
               \<and> seatId (entry_seat (plan ! i))
                   = fromCharCode (65 + plan_row (entry_seat (plan ! i)))
                     @ numToString (plan_col (entry_seat (plan ! i)) + 1)
               \<and> (plan_row (entry_seat (plan ! i)) < 26 \<longrightarrow>
                    fromCharCode (65 + plan_row (entry_seat (plan ! i)))
                    = [of_char (''ABCDEFGHIJKLMNOPQRSTUVWXYZ'' ! nat (plan_row (entry_seat (plan ! i))))])"
    and grid: "\<forall>r c. 0 \<le> r \<and> r < 2 \<and> 0 \<le> c \<and> c < 7 \<longrightarrow>
               (\<exists>s. seatAt (mkVenue 2 7 1) (Some (r * 7 + c)) = Some s \<and> row s = r \<and> col s = c
                    \<and> seatId (planSeat s) = fromCharCode (65 + r) @ numToString (c + 1))"
    by (elim exE conjE)
  have 1: "plan_row (entry_seat (plan ! 0)) * 7 + plan_col (entry_seat (plan ! 0)) = 13"
    using each[rule_format, of 0] by simp
  have "\<exists>s. seatAt (mkVenue 2 7 1) (Some (1 * 7 + 6)) = Some s \<and> row s = 1 \<and> col s = 6
                    \<and> seatId (planSeat s) = fromCharCode (65 + 1) @ numToString (6 + 1)"
    using grid[rule_format, of 1 6] by simp
  then have 2: "\<exists>s. seatAt (mkVenue 2 7 1) (Some (1 * 7 + 6)) = Some s \<and> row s = 1 \<and> col s = 6
        \<and> seatId (planSeat s) = [66, 55]"
    using n by (simp add: fromCharCode_def)
  show ?thesis using a plan 1 2 by (intro conjI exI[of _ plan]) simp_all
qed

text \<open>
  Claim C9. The server-side and the browser-side \<^verbatim>\<open>calculateFitness\<close> are the same function: on every
  optimizer state (venue, attendees, groups, friendships, weights) and every chromosome they raise
  together or return the same fitness record.
\<close>

theorem calculateFitness_server_eq:
  "calculateFitness_server st chromosome = calculateFitness st chromosome"
  by (rule calculateFitness_server_is_browser)

theorem calculateFitness_server_eq_witness:
  "calculateFitness_server hall [Some 13] = calculateFitness hall [Some 13]"
  by (rule calculateFitness_server_eq)

text \<open>
  Claim C7. Whenever \<^verbatim>\<open>calculateFitness\<close> returns a record: with no friendship pair (every friend set
  empty) the accumulated friend maximum is zero and \<^verbatim>\<open>friendProximity\<close> is exactly 1; with no VIP
  attendee \<^verbatim>\<open>vipPlacement\<close> is exactly 1; with no group of two or more members \<^verbatim>\<open>groupCohesion\<close> is
  exactly 1.
\<close>

theorem zero_maximum_is_neutral:
  assumes "calculateFitness st c = Inr f"
  shows "((\<forall>x \<in> set (friendships st). snd x = []) \<longrightarrow> friendProximity f = 1)
       \<and> ((\<forall>a \<in> set (attendees st). type a \<noteq> ''vip'') \<longrightarrow> vipPlacement f = 1)
       \<and> ((\<forall>x \<in> set (groups st). length (snd x) \<le> 1) \<longrightarrow> groupCohesion f = 1)"
proof -
  from assms obtain v fr acc gr where v: "venue st = Some v"
    and fr: "friendsOuter v c (friendships st) (0, 0) = Inr fr"
    and acc: "attendeesLoop v c (enumerate 0 (attendees st)) emptyAcc = Inr acc"
    and gr: "groupsLoop v c (groups st) (0, 0) = Inr gr"
    and f: "friendProximity f = normalize (fst fr) (snd fr)"
           "vipPlacement f = normalize (vipPlacementScore acc) (maxVipScore acc)"
           "groupCohesion f = normalize (fst gr) (snd gr)"
    by (rule calculateFitness_InrD)
  have 1: "friendProximity f = 1" if "\<forall>x \<in> set (friendships st). snd x = []"
    using friendsOuter_no_pairs[OF that, of v c "(0, 0)"] fr f by (simp add: normalize_def)
  have 2: "vipPlacement f = 1" if h: "\<forall>a \<in> set (attendees st). type a \<noteq> ''vip''"
  proof -
    have "\<forall>x \<in> set (enumerate 0 (attendees st)). type (snd x) \<noteq> ''vip''"
      using h by (auto simp: enumerate_eq_zip dest: set_zip_rightD)
    from attendeesLoop_no_vip[OF acc this] show ?thesis
      using f by (simp add: normalize_def emptyAcc_def)
  qed
  have 3: "groupCohesion f = 1" if "\<forall>x \<in> set (groups st). length (snd x) \<le> 1"
    using groupsLoop_no_groups[OF that, of v c "(0, 0)"] gr f by (simp add: normalize_def)
  show ?thesis using 1 2 3 by blast
qed

theorem zero_maximum_is_neutral_witness:
  "\<exists>f. calculateFitness hall [Some 13] = Inr f
      \<and> friendProximity f = 1 \<and> vipPlacement f = 1 \<and> groupCohesion f = 1"
proof -
  obtain f where f: "calculateFitness hall [Some 13] = Inr f"
    using calculateFitness_ok[OF _ hall_prepared hall_valid] by auto
  from zero_maximum_is_neutral[OF f] show ?thesis
    using f by (simp add: hall_maps hall_attendees mkAttendee_def guest_def)
qed

text \<open>
  Claim C3. For an optimizer prepared by \<^verbatim>\<open>setVenue\<close> and \<^verbatim>\<open>setAttendees\<close> (attendee priorities not
  negative, as the data model has them), non-negative weights with a positive sum and a valid
  assignment \<open>A\<close>, \<^verbatim>\<open>calculateFitness(A)\<close> returns a record, and its \<^verbatim>\<open>friendProximity\<close>,
  \<^verbatim>\<open>vipPlacement\<close>, \<^verbatim>\<open>groupCohesion\<close>, \<^verbatim>\<open>stageDistance\<close> and \<^verbatim>\<open>total\<close> are numbers in \<open>[0, 1]\<close>.
\<close>

theorem calculateFitness_in_unit_interval:
  assumes "0 \<le> R" "prepared st R C V raws" "\<forall>a \<in> set raws. nonnegPriority a"
    and "validWeights (weights (config st))"
    and "validAssignment (R * C) (length raws) A"
  shows "\<exists>f t. calculateFitness st A = Inr f
           \<and> 0 \<le> friendProximity f \<and> friendProximity f \<le> 1
           \<and> 0 \<le> vipPlacement f \<and> vipPlacement f \<le> 1
           \<and> 0 \<le> groupCohesion f \<and> groupCohesion f \<le> 1
           \<and> 0 \<le> stageDistance f \<and> stageDistance f \<le> 1
           \<and> total f = Num t \<and> 0 \<le> t \<and> t \<le> 1"
proof -
  obtain f where f: "calculateFitness st A = Inr f"
    using calculateFitness_ok[OF assms(1,2,5)] by blast
  have v: "venue st = Some (mkVenue R C V)" using assms(2) by (simp add: prepared_def setVenue_def)
  have pr: "\<forall>a \<in> set (attendees st). 0 \<le> priority a"
    using setAttendees_priority[OF assms(3), of _ st] assms(2) by (simp add: prepared_def)
  obtain t where "total f = Num t" "0 \<le> t" "t \<le> 1"
    using calculateFitness_total[OF f v pr assms(4)] by blast
  then show ?thesis using f calculateFitness_bounds[OF f v pr] by blast
qed

theorem calculateFitness_in_unit_interval_witness:
  "prepared hall 2 7 1 [guest ''regular'' None]
   \<and> nonnegPriority (guest ''regular'' None)
   \<and> validWeights (weights (config hall))
   \<and> validAssignment (2 * 7) 1 [Some 13]
   \<and> (\<exists>f t. calculateFitness hall [Some 13] = Inr f
           \<and> 0 \<le> friendProximity f \<and> friendProximity f \<le> 1
           \<and> 0 \<le> vipPlacement f \<and> vipPlacement f \<le> 1
           \<and> 0 \<le> groupCohesion f \<and> groupCohesion f \<le> 1
           \<and> 0 \<le> stageDistance f \<and> stageDistance f \<le> 1
           \<and> total f = Num t \<and> 0 \<le> t \<and> t \<le> 1)"
proof -
  have p: "\<forall>a \<in> set [guest ''regular'' None]. nonnegPriority a"
    by (simp add: nonnegPriority_def guest_def)
  from calculateFitness_in_unit_interval[OF _ hall_prepared p hall_weights hall_valid]
  show ?thesis using hall_prepared p hall_weights hall_valid by simp
qed

text \<open>
  Claim C5, as the specification states it, fails: with all four weights zero neither
  \<^verbatim>\<open>updateWeights\<close> nor \<^verbatim>\<open>calculateFitness\<close> raises. In the example hall \<^verbatim>\<open>updateWeights(0, 0, 0, 0)\<close>
  followed by \<^verbatim>\<open>calculateFitness\<close> returns a record whose \<^verbatim>\<open>total\<close> is NaN.
\<close>

theorem zero_weights_counterexample:
  "(case calculateFitness (updateWeights hall 0 0 0 0) [Some 13] of
      Inl e \<Rightarrow> False
    | Inr f \<Rightarrow> total f = NaN)"
proof -
  have "prepared (updateWeights hall 0 0 0 0) 2 7 1 [guest ''regular'' None]"
    using hall_prepared by (simp add: prepared_updateWeights)
  from calculateFitness_ok[OF _ this hall_valid]
  obtain f where f: "calculateFitness (updateWeights hall 0 0 0 0) [Some 13] = Inr f"
    by auto
  then show ?thesis using zero_weights_total[OF f] by simp
qed

text \<open>
  Claim C5, amended. \<^verbatim>\<open>updateWeights(0, 0, 0, 0)\<close> stores NaN for each of the four weights (it has
  no error path); afterwards \<^verbatim>\<open>calculateFitness\<close> raises exactly where it raised before, and every
  record it returns has the total NaN. A zero weight passed to the constructor is replaced by
  its default (30, 25, 25, 20 percent), so the constructor never stores an all-zero weighting.
\<close>

theorem zero_weights_give_NaN_total:
  "weights (config (updateWeights st 0 0 0 0))
     = \<lparr>friendProximityW = NaN, vipPlacementW = NaN, groupCohesionW = NaN, stageDistanceW = NaN\<rparr>
   \<and> (\<forall>ch e. calculateFitness (updateWeights st 0 0 0 0) ch = Inl e
               \<longleftrightarrow> calculateFitness st ch = Inl e)
   \<and> (\<forall>ch f. calculateFitness (updateWeights st 0 0 0 0) ch = Inr f \<longrightarrow> total f = NaN)
   \<and> weights (config (SeatOptimizer (cfg\<lparr>opt_friendWeight := Some 0, opt_vipWeight := Some 0,
         opt_groupWeight := Some 0, opt_distanceWeight := Some 0\<rparr>)))
       = \<lparr>friendProximityW = Num (30 / 100), vipPlacementW = Num (25 / 100),
          groupCohesionW = Num (25 / 100), stageDistanceW = Num (20 / 100)\<rparr>"
proof (intro conjI allI impI)
  show "weights (config (updateWeights st 0 0 0 0))
     = \<lparr>friendProximityW = NaN, vipPlacementW = NaN, groupCohesionW = NaN, stageDistanceW = NaN\<rparr>"
    by (rule updateWeights_zero)
  show "calculateFitness (updateWeights st 0 0 0 0) ch = Inl e \<longleftrightarrow> calculateFitness st ch = Inl e"
    for ch e by (rule calculateFitness_error_weights)
  show "total f = NaN" if "calculateFitness (updateWeights st 0 0 0 0) ch = Inr f" for ch f
    using that by (rule zero_weights_total)
  show "weights (config (SeatOptimizer (cfg\<lparr>opt_friendWeight := Some 0, opt_vipWeight := Some 0,
         opt_groupWeight := Some 0, opt_distanceWeight := Some 0\<rparr>)))
       = \<lparr>friendProximityW = Num (30 / 100), vipPlacementW = Num (25 / 100),
          groupCohesionW = Num (25 / 100), stageDistanceW = Num (20 / 100)\<rparr>"
    by (rule constructor_zero_weights)
qed

theorem zero_weights_give_NaN_total_witness:
  "\<exists>f. calculateFitness (updateWeights hall 0 0 0 0) [Some 13] = Inr f \<and> total f = NaN"
proof -
  have "prepared (updateWeights hall 0 0 0 0) 2 7 1 [guest ''regular'' None]"
    using hall_prepared by (simp add: prepared_updateWeights)
  from calculateFitness_ok[OF _ this hall_valid]
  obtain f where f: "calculateFitness (updateWeights hall 0 0 0 0) [Some 13] = Inr f"
    by auto
  have "\<forall>ch f. calculateFitness (updateWeights hall 0 0 0 0) ch = Inr f \<longrightarrow> total f = NaN"
    by (rule zero_weights_give_NaN_total[of hall, THEN conjunct2, THEN conjunct2, THEN conjunct1])
  then have "total f = NaN" using f by blast
  then show ?thesis using f by blast
qed

section \<open>Targeted swaps\<close>

lemma arrSwap_in_range:
  "i < length c \<Longrightarrow> j < length c \<Longrightarrow> arrSwap c i j = c[i := c ! j, j := c ! i]"
  by (simp add: arrSwap_def arrSet_def chromGet_def)

lemma chromGet_Some_length: "chromGet c i = Some p \<Longrightarrow> i < length c"
  by (simp add: chromGet_def split: if_splits)

lemma seatAt_Some_length: "seatAt v (chromGet c i) = Some s \<Longrightarrow> i < length c"
  by (cases "chromGet c i") (auto simp: seatAt_def dest: chromGet_Some_length)

lemma seatProp_Inr_length: "seatProp vo (chromGet c i) = Inr s \<Longrightarrow> i < length c"
  by (auto simp: seatProp_def split: option.splits dest: seatAt_Some_length)

lemma getSeatDistance_Inr:
  "getSeatDistance a b = Inr d \<Longrightarrow> \<exists>s t. a = Some s \<and> b = Some t"
  by (auto simp: getSeatDistance_def split: option.splits)

lemma vipInner_range: "vipInner vo c xs = Inr (Some j) \<Longrightarrow> j < length c"
proof (induction xs)
  case Nil
  then show ?case by simp
next
  case (Cons x xs)
  obtain j' b where x: "x = (j', b)" by (cases x)
  show ?case using Cons
    by (auto simp: x split: if_splits sum.splits dest: seatProp_Inr_length)
qed

lemma vipOuter_range:
  "vipOuter vo c all xs = Inr (Some (i, j)) \<Longrightarrow> i < length c \<and> j < length c"
proof (induction xs)
  case Nil
  then show ?case by simp
next
  case (Cons x xs)
  obtain i' a where x: "x = (i', a)" by (cases x)
  show ?case using Cons
    by (auto simp: x split: if_splits sum.splits option.splits
        dest: seatProp_Inr_length vipInner_range)
qed

lemma improveVipPlacement_swap:
  assumes "improveVipPlacement st c = Inr c'"
  shows "c' = c \<or> swapOf c c'"
proof (cases "findVipSwap st c")
  case (Inl e)
  then show ?thesis using assms by (simp add: improveVipPlacement_def)
next
  case (Inr r)
  show ?thesis
  proof (cases r)
    case None
    then show ?thesis using assms Inr by (simp add: improveVipPlacement_def)
  next
    case (Some ij)
    obtain i j where ij: "ij = (i, j)" by (cases ij)
    have "i < length c \<and> j < length c"
      using Inr Some ij vipOuter_range by (simp add: findVipSwap_def)
    then show ?thesis using assms Inr Some ij
      by (auto simp: improveVipPlacement_def swapOf_def arrSwap_in_range)
  qed
qed

lemma findAdjacent_range:
  "findAdjacent v c idx1 idx2 seat2 xs = Inr (Some i) \<Longrightarrow> i < length c"
proof (induction xs)
  case Nil
  then show ?case by simp
next
  case (Cons x xs)
  show ?case using Cons
    by (auto split: if_splits sum.splits dest!: getSeatDistance_Inr dest: seatAt_Some_length)
qed

lemma farFriend_range:
  "farFriend v c sa fs = Inr (Some f) \<Longrightarrow> sa \<noteq> None \<and> f < length c"
proof (induction fs)
  case Nil
  then show ?case by simp
next
  case (Cons x fs)
  show ?case using Cons
    by (auto split: if_splits sum.splits dest!: getSeatDistance_Inr dest: seatAt_Some_length)
qed

lemma farPair_range:
  "farPair v c fr = Inr (Some (a, f)) \<Longrightarrow> a < length c \<and> f < length c"
proof (induction fr)
  case Nil
  then show ?case by simp
next
  case (Cons x fr)
  obtain a' fs where x: "x = (a', fs)" by (cases x)
  show ?case using Cons
    by (auto simp: x split: sum.splits option.splits dest!: farFriend_range dest: seatAt_Some_length)
qed

lemma trySwap_swap:
  assumes "trySwapForBetterProximity v c idx1 idx2 = Inr c'" "idx1 < length c"
  shows "c' = c \<or> swapOf c c'"
proof (cases "findAdjacent v c idx1 idx2 (seatAt v (chromGet c idx2)) [0..<length c]")
  case (Inl e)
  then show ?thesis using assms by (simp add: trySwapForBetterProximity_def)
next
  case (Inr r)
  show ?thesis
  proof (cases r)
    case None
    then show ?thesis using assms Inr by (simp add: trySwapForBetterProximity_def)
  next
    case (Some i)
    have i: "i < length c" using Inr Some by (auto dest: findAdjacent_range)
    have "c' = c[idx1 := c ! i, i := c ! idx1]"
      using assms Inr Some i by (simp add: trySwapForBetterProximity_def arrSwap_in_range)
    then show ?thesis using i assms(2) unfolding swapOf_def by blast
  qed
qed

lemma improveFriendProximity_swap:
  assumes "improveFriendProximity st c = Inr c'"
  shows "c' = c \<or> swapOf c c'"
proof (cases "friendships st = []")
  case True
  then show ?thesis using assms by (simp add: improveFriendProximity_def)
next
  case False
  then obtain v where v: "venue st = Some v"
    using assms by (auto simp: improveFriendProximity_def split: option.splits)
  show ?thesis
  proof (cases "farPair v c (friendships st)")
    case (Inl e)
    then show ?thesis using assms False v by (simp add: improveFriendProximity_def)
  next
    case (Inr r)
    show ?thesis
    proof (cases r)
      case None
      then show ?thesis using assms False v Inr by (simp add: improveFriendProximity_def)
    next
      case (Some af)
      obtain a f where af: "af = (a, f)" by (cases af)
      have "a < length c" using Inr Some af farPair_range by blast
      moreover have "trySwapForBetterProximity v c a f = Inr c'"
        using assms False v Inr Some af by (simp add: improveFriendProximity_def)
      ultimately show ?thesis by (intro trySwap_swap)
    qed
  qed
qed

lemma smartMutate_shape:
  assumes "smartMutate st rs k c fit = Inr (c', k')"
  obtains c1 where
    "c1 = c \<or> (friendProximity fit < 0.7 \<and> Rep_rand (rs k) < 0.5 \<and> improveFriendProximity st c = Inr c1)"
    "c' = c1 \<or> (vipPlacement fit < 0.8 \<and> improveVipPlacement st c1 = Inr c')"
  using assms unfolding smartMutate_def Let_def
  by (auto split: if_splits sum.splits)

lemma club_venue: "venue club = Some (mkVenue 2 5 1)"
  by (simp add: club_def setAttendees_def setVenue_def Let_def)

lemma club_attendees:
  "attendees club = [mkAttendee 0 (guest ''vip'' None), mkAttendee 1 (guest ''regular'' (Some ''g'')),
     mkAttendee 2 (guest ''regular'' (Some ''g'')), mkAttendee 3 (guest ''regular'' None)]"
  by (simp add: club_def clubGuests_def setAttendees_def Let_def enumerate_eq_zip upt_rec_numeral
      numeral_2_eq_2 numeral_3_eq_3)

lemma club_groups: "groups club = [(''g'', [1, 2])]"
  by (simp add: club_def clubGuests_def setAttendees_def Let_def enumerate_eq_zip upt_rec_numeral
      buildGroups_def truthyGroup_def mkAttendee_def guest_def)

lemma club_friendships: "friendships club = [(1, [2]), (2, [1])]"
  by (simp add: club_def clubGuests_def setAttendees_def Let_def enumerate_eq_zip upt_rec_numeral
      buildGroups_def truthyGroup_def mkAttendee_def guest_def buildFriendships_def
      addFriendsOf_def setAdd_def)

lemma club_seat:
  "0 \<le> p \<Longrightarrow> p < 10 \<Longrightarrow> seatAt (mkVenue 2 5 1) (Some p) = Some (mkSeat 5 1 (p div 5) (p mod 5))"
  using seatAt_mkVenue[of p 2 5 1] by simp

lemma club_friend_swap:
  "improveFriendProximity club clubSeating = Inr [Some 5, Some 8, Some 9, Some 0]"
  by (simp add: improveFriendProximity_def club_friendships club_venue clubSeating_def chromGet_def
      club_seat getSeatDistance_def mkSeat_def trySwapForBetterProximity_def upt_rec_numeral
      arrSwap_def arrSet_def)

lemma club_vip_swap:
  "improveVipPlacement club [Some 5, Some 8, Some 9, Some 0] = Inr [Some 0, Some 8, Some 9, Some 5]"
  by (simp add: improveVipPlacement_def findVipSwap_def club_attendees club_venue chromGet_def
      seatProp_def club_seat mkSeat_def mkAttendee_def guest_def enumerate_eq_zip upt_rec_numeral
      arrSwap_def arrSet_def)

lemma club_fitness:
  assumes "calculateFitness club clubSeating = Inr f"
  shows "friendProximity f = 3 / 20 \<and> vipPlacement f = 2 / 5"
proof -
  from assms obtain v fr acc gr where v: "venue club = Some v"
    and fr: "friendsOuter v clubSeating (friendships club) (0, 0) = Inr fr"
    and acc: "attendeesLoop v clubSeating (enumerate 0 (attendees club)) emptyAcc = Inr acc"
    and f: "friendProximity f = normalize (fst fr) (snd fr)"
           "vipPlacement f = normalize (vipPlacementScore acc) (maxVipScore acc)"
    by (rule calculateFitness_InrD)
  have v': "v = mkVenue 2 5 1" using v club_venue by simp
  have "fr = (3, 20)"
    using fr by (simp add: v' club_friendships clubSeating_def chromGet_def club_seat
        getSeatDistance_def mkSeat_def friendPoints_def)
  moreover have "vipPlacementScore acc = 8 \<and> maxVipScore acc = 20"
    using acc by (auto simp add: v' club_attendees clubSeating_def chromGet_def club_seat
        enumerate_eq_zip upt_rec_numeral attendeeStep_def mkSeat_def mkAttendee_def guest_def
        emptyAcc_def Let_def)
  ultimately show ?thesis using f by (simp add: normalize_def)
qed

lemma club_valid: "validAssignment (2 * 5) (length clubGuests) clubSeating"
  by (simp add: validAssignment_def clubSeating_def clubGuests_def)

lemma club_prepared: "prepared club 2 5 1 clubGuests"
  by (simp add: prepared_def club_def setAttendees_def setVenue_def Let_def)

lemma club_not_one_swap: "\<not> swapOf clubSeating [Some 0, Some 8, Some 9, Some 5]"
proof
  assume "swapOf clubSeating [Some 0, Some 8, Some 9, Some 5]"
  then obtain i j where i': "i < length clubSeating" and j': "j < length clubSeating"
    and e: "[Some 0, Some 8, Some 9, Some 5] = clubSeating[i := clubSeating ! j, j := clubSeating ! i]"
    unfolding swapOf_def by blast
  have i: "i < 4" and j: "j < 4" using i' j' by (simp_all add: clubSeating_def)
  have "i = 0 \<or> i = 1 \<or> i = 2 \<or> i = 3" using i by arith
  moreover have "j = 0 \<or> j = 1 \<or> j = 2 \<or> j = 3" using j by arith
  ultimately show False using e
    by (elim disjE) (simp_all add: clubSeating_def)
qed

lemma club_smartMutate:
  assumes "calculateFitness club clubSeating = Inr f"
  shows "smartMutate club rng0 0 clubSeating f = Inr ([Some 0, Some 8, Some 9, Some 5], 2)"
  using club_fitness[OF assms]
  by (simp add: smartMutate_def Let_def rng0_def rand0.rep_eq club_friend_swap club_vip_swap)

text \<open>
  Claim C4, as the specification states it, fails: the two tests of \<^verbatim>\<open>smartMutate\<close> are independent
  \<^verbatim>\<open>if\<close> statements, so one call can perform both swaps. In the club, from the seating
  \<open>[5, 0, 9, 8]\<close> and its own fitness, the friend swap gives \<open>[5, 8, 9, 0]\<close> and the VIP swap then gives
  \<open>[0, 8, 9, 5]\<close>, which is not one swap away from the input.
\<close>

theorem smartMutate_two_swaps_counterexample:
  "(case calculateFitness club clubSeating of
      Inl e \<Rightarrow> False
    | Inr f \<Rightarrow> smartMutate club rng0 0 clubSeating f
                = Inr ([Some 0, Some 8, Some 9, Some 5], 2))
   \<and> improveFriendProximity club clubSeating = Inr [Some 5, Some 8, Some 9, Some 0]
   \<and> improveVipPlacement club [Some 5, Some 8, Some 9, Some 0] = Inr [Some 0, Some 8, Some 9, Some 5]
   \<and> \<not> swapOf clubSeating [Some 0, Some 8, Some 9, Some 5]"
proof -
  from calculateFitness_ok[OF _ club_prepared club_valid]
  obtain f where f: "calculateFitness club clubSeating = Inr f" by auto
  show ?thesis
    using f club_smartMutate[OF f] club_friend_swap club_vip_swap club_not_one_swap by simp
qed

text \<open>
  Claim C4, amended. A call to \<^verbatim>\<open>smartMutate\<close> that returns performs at most one friend-proximity swap
  followed by at most one VIP-placement swap (both can happen in the same call): the result is
  reached from the input by at most two swaps of two cells. It returns the chromosome unchanged
  when neither threshold test holds, and when neither \<^verbatim>\<open>improveFriendProximity\<close> nor
  \<^verbatim>\<open>improveVipPlacement\<close> finds a swap on the input.
\<close>

theorem smartMutate_at_most_two_swaps:
  assumes "smartMutate st rs k c fit = Inr (c', k')"
  shows "(\<exists>c1. (c1 = c \<or> swapOf c c1) \<and> (c' = c1 \<or> swapOf c1 c'))
       \<and> (\<not> friendProximity fit < 0.7 \<and> \<not> vipPlacement fit < 0.8 \<longrightarrow> c' = c)
       \<and> (improveFriendProximity st c = Inr c \<and> improveVipPlacement st c = Inr c \<longrightarrow> c' = c)"
proof -
  from assms obtain c1 where
    1: "c1 = c \<or> (friendProximity fit < 0.7 \<and> Rep_rand (rs k) < 0.5 \<and> improveFriendProximity st c = Inr c1)"
    and 2: "c' = c1 \<or> (vipPlacement fit < 0.8 \<and> improveVipPlacement st c1 = Inr c')"
    by (rule smartMutate_shape)
  have a: "c1 = c \<or> swapOf c c1" using 1 improveFriendProximity_swap by blast
  have b: "c' = c1 \<or> swapOf c1 c'" using 2 improveVipPlacement_swap by blast
  have c: "c' = c" if "\<not> friendProximity fit < 0.7" "\<not> vipPlacement fit < 0.8"
    using 1 2 that by blast
  have d: "c' = c" if "improveFriendProximity st c = Inr c" "improveVipPlacement st c = Inr c"
  proof -
    have "c1 = c" using 1 that(1) by auto
    then show ?thesis using 2 that(2) by auto
  qed
  show ?thesis using a b c d by blast
qed

theorem smartMutate_at_most_two_swaps_witness:
  "\<exists>f. calculateFitness club clubSeating = Inr f
     \<and> smartMutate club rng0 0 clubSeating f = Inr ([Some 0, Some 8, Some 9, Some 5], 2)
     \<and> (\<exists>c1. (c1 = clubSeating \<or> swapOf clubSeating c1)
             \<and> ([Some 0, Some 8, Some 9, Some 5] = c1 \<or> swapOf c1 [Some 0, Some 8, Some 9, Some 5]))"
proof -
  from calculateFitness_ok[OF _ club_prepared club_valid]
  obtain f where f: "calculateFitness club clubSeating = Inr f" by auto
  have s: "smartMutate club rng0 0 clubSeating f = Inr ([Some 0, Some 8, Some 9, Some 5], 2)"
    using f by (rule club_smartMutate)
  from smartMutate_at_most_two_swaps[OF s] show ?thesis using f s by blast
qed


subsection \<open>Swaps and the annealer\<close>

lemma validAssignment_swap:
  assumes "validAssignment n N c" "i < N" "j < N"
  shows "validAssignment n N (c[i := c ! j, j := c ! i])"
proof -
  have len: "length c = N" using assms(1) by (simp add: validAssignment_def)
  have "distinct (c[i := c ! j, j := c ! i])"
    using assms len by (simp add: validAssignment_def distinct_swap)
  moreover have "set (c[i := c ! j, j := c ! i]) = set c"
    using assms len by (simp add: set_swap)
  ultimately show ?thesis using assms(1) len
    by (simp add: validAssignment_def list_all_iff)
qed

lemma randomIndex_range:
  assumes "0 < n"
  shows "0 \<le> randomIndex rs k n \<and> randomIndex rs k n < n"
proof -
  have r: "0 \<le> Rep_rand (rs k)" "Rep_rand (rs k) < 1" using Rep_rand[of "rs k"] by simp_all
  have "Rep_rand (rs k) * real_of_int n < 1 * real_of_int n"
    using r assms by (intro mult_strict_right_mono) simp_all
  then have "\<lfloor>Rep_rand (rs k) * real_of_int n\<rfloor> < n" by (simp add: floor_less_iff)
  moreover have "0 \<le> \<lfloor>Rep_rand (rs k) * real_of_int n\<rfloor>" using r assms by simp
  ultimately show ?thesis by (simp add: randomIndex_def)
qed

lemma randomSwap_valid:
  assumes "validAssignment n N c" "0 < N"
  shows "validAssignment n N (randomSwap rs k c)"
proof -
  have len: "length c = N" using assms(1) by (simp add: validAssignment_def)
  let ?i = "nat (randomIndex rs k (int (length c)))"
  let ?j = "nat (randomIndex rs (k + 1) (int (length c)))"
  have i: "?i < N" using randomIndex_range[of "int (length c)" rs k] assms(2) len
    by (auto simp: nat_less_iff)
  have j: "?j < N" using randomIndex_range[of "int (length c)" rs "k + 1"] assms(2) len
    by (auto simp: nat_less_iff)
  have "randomSwap rs k c = c[?i := c ! ?j, ?j := c ! ?i]"
    using i j len by (simp add: randomSwap_def arrSwap_in_range)
  then show ?thesis using validAssignment_swap[OF assms(1) i j] by simp
qed

lemma findOutsider_range:
  "findOutsider v c members otherSeat ks = Inr (Some k) \<Longrightarrow> k \<in> set ks"
  by (induction ks) (auto split: if_splits sum.splits)

lemma findSwapPartner_range:
  "findSwapPartner v c N members memberIdx os = Inr (Some k) \<Longrightarrow> k < N"
  by (induction os) (auto split: if_splits sum.splits option.splits dest!: findOutsider_range)

lemma isolatedMember_range:
  "isolatedMember v c N members ms = Inr (Some (m, k)) \<Longrightarrow> m \<in> set ms \<and> k < N"
  by (induction ms)
     (auto split: if_splits sum.splits option.splits bool.splits dest!: findSwapPartner_range)

lemma weakGroup_range:
  "weakGroup vo c N gs = Inr (Some (m, k)) \<Longrightarrow> (\<exists>x \<in> set gs. m \<in> set (snd x)) \<and> k < N"
proof (induction gs)
  case Nil
  then show ?case by simp
next
  case (Cons x gs)
  obtain g members where x: "x = (g, members)" by (cases x)
  show ?case using Cons
    by (auto simp: x split: if_splits sum.splits option.splits dest!: isolatedMember_range)
qed

lemma vipInner_in: "vipInner vo c xs = Inr (Some j) \<Longrightarrow> j \<in> fst ` set xs"
  by (induction xs) (auto split: if_splits sum.splits)

lemma vipOuter_in:
  "vipOuter vo c all xs = Inr (Some (i, j)) \<Longrightarrow> i \<in> fst ` set xs \<and> j \<in> fst ` set all"
  by (induction xs) (auto split: if_splits sum.splits option.splits dest!: vipInner_in)

lemma fst_set_enumerate: "fst ` set (enumerate 0 xs) = {0..<length xs}"
proof -
  have "set (map fst (enumerate 0 xs)) = {0..<length xs}"
    by (simp only: map_fst_enumerate) simp
  then show ?thesis by (simp only: set_map)
qed

lemma findVipSwap_range:
  "findVipSwap st c = Inr (Some (i, j)) \<Longrightarrow> i < length (attendees st) \<and> j < length (attendees st)"
  unfolding findVipSwap_def by (drule vipOuter_in) (simp add: fst_set_enumerate)

lemma findWeakArea_range:
  assumes "findWeakArea st c fit = Inr (Some (i, j))"
    and "\<forall>x \<in> set (groups st). \<forall>m \<in> set (snd x). m < length (attendees st)"
  shows "i < length (attendees st) \<and> j < length (attendees st)"
proof (cases "vipPlacement fit < 0.8 \<and> findVipSwap st c = Inr (Some (i, j))")
  case True
  then show ?thesis using findVipSwap_range by blast
next
  case False
  then have "weakGroup (venue st) c (length (attendees st)) (groups st) = Inr (Some (i, j))"
    using assms(1) by (auto simp: findWeakArea_def split: if_splits sum.splits option.splits)
  then show ?thesis using weakGroup_range assms(2) by blast
qed

lemma seatable_seatAt:
  assumes "0 \<le> R" "seatable (R * C) N c" "i < N"
  shows "seatAt (mkVenue R C V) (chromGet c i) \<noteq> None"
  using assms valid_seatAt[of R C N c i V] by (auto simp: seatable_def)

lemma seatable_fitness_ok:
  assumes "0 \<le> R" "prepared st R C V raws" "seatable (R * C) (length raws) c"
  shows "\<exists>f. calculateFitness st c = Inr f"
  using assms(2) seatable_seatAt[OF assms(1,3)] by (rule calculateFitness_ok_seated)

lemma weightedTotal_Num:
  assumes "validWeights w"
  shows "\<exists>t. weightedTotal w a b c d = Num t"
proof -
  from assms obtain wa wb wc wd where w: "friendProximityW w = Num wa" "vipPlacementW w = Num wb"
      "groupCohesionW w = Num wc" "stageDistanceW w = Num wd"
    and pos: "0 < wa + wb + wc + wd"
    by (auto simp: validWeights_def split: jsnum.splits)
  show ?thesis using pos by (simp add: weightedTotal_def w Let_def)
qed

lemma calculateFitness_Num:
  assumes "calculateFitness st c = Inr f" "validWeights (weights (config st))"
  shows "\<exists>t. total f = Num t"
proof -
  have "total f = weightedTotal (weights (config st)) (friendProximity f) (vipPlacement f)
                     (groupCohesion f) (stageDistance f)"
    using assms(1) by (rule calculateFitness_InrD)
  then show ?thesis using weightedTotal_Num[OF assms(2)] by simp
qed

(* the loops of findWeakArea do not raise when every attendee is seated *)
lemma seatProp_ok: "seatAt v x \<noteq> None \<Longrightarrow> \<exists>s. seatProp (Some v) x = Inr s"
  by (auto simp: seatProp_def)

lemma vipInner_ok:
  assumes "\<forall>x \<in> set xs. seatAt v (chromGet c (fst x)) \<noteq> None"
  shows "\<exists>r. vipInner (Some v) c xs = Inr r"
  using assms
proof (induction xs)
  case Nil
  then show ?case by simp
next
  case (Cons x xs)
  obtain j b where x: "x = (j, b)" by (cases x)
  obtain s where "seatProp (Some v) (chromGet c j) = Inr s"
    using Cons.prems seatProp_ok[of v "chromGet c j"] by (auto simp: x)
  then show ?case using Cons by (auto simp: x)
qed

lemma vipOuter_ok:
  assumes "\<forall>x \<in> set all. seatAt v (chromGet c (fst x)) \<noteq> None"
    and "\<forall>x \<in> set xs. seatAt v (chromGet c (fst x)) \<noteq> None"
  shows "\<exists>r. vipOuter (Some v) c all xs = Inr r"
  using assms(2)
proof (induction xs)
  case Nil
  then show ?case by simp
next
  case (Cons x xs)
  obtain i a where x: "x = (i, a)" by (cases x)
  obtain s where s: "seatProp (Some v) (chromGet c i) = Inr s"
    using Cons.prems seatProp_ok[of v "chromGet c i"] by (auto simp: x)
  obtain r where r: "vipInner (Some v) c all = Inr r" using vipInner_ok[OF assms(1)] by blast
  obtain r' where r': "vipOuter (Some v) c all xs = Inr r'" using Cons by auto
  show ?case using s r r' by (cases r) (auto simp: x)
qed

lemma hasNeighbor_ok:
  assumes "ms \<noteq> None" "\<forall>q \<in> set qs. seatAt v (chromGet c q) \<noteq> None"
  shows "\<exists>b. hasNeighbor v c m ms qs = Inr b"
  using assms(2)
proof (induction qs)
  case Nil
  show ?case by (rule exI[of _ False]) simp
next
  case (Cons q qs)
  obtain a where a: "ms = Some a" using assms(1) by auto
  obtain t where t: "seatAt v (chromGet c q) = Some t" using Cons.prems by auto
  show ?case using Cons a t by (auto simp: getSeatDistance_def)
qed

lemma findOutsider_ok:
  assumes "qs \<noteq> None" "\<forall>k \<in> set ks. seatAt v (chromGet c k) \<noteq> None"
  shows "\<exists>r. findOutsider v c members qs ks = Inr r"
  using assms(2)
proof (induction ks)
  case Nil
  then show ?case by simp
next
  case (Cons k ks)
  obtain a where a: "qs = Some a" using assms(1) by auto
  obtain t where t: "seatAt v (chromGet c k) = Some t" using Cons.prems by auto
  show ?case using Cons a t by (auto simp: getSeatDistance_def)
qed

lemma findSwapPartner_ok:
  assumes "\<forall>k < N. seatAt v (chromGet c k) \<noteq> None"
    and "\<forall>q \<in> set qs. seatAt v (chromGet c q) \<noteq> None"
  shows "\<exists>r. findSwapPartner v c N members m qs = Inr r"
  using assms(2)
proof (induction qs)
  case Nil
  then show ?case by simp
next
  case (Cons q qs)
  have "seatAt v (chromGet c q) \<noteq> None" using Cons.prems by simp
  then obtain r where r: "findOutsider v c members (seatAt v (chromGet c q)) [0..<N] = Inr r"
    using findOutsider_ok[of "seatAt v (chromGet c q)" "[0..<N]" v c members] assms(1) by auto
  obtain r' where r': "findSwapPartner v c N members m qs = Inr r'" using Cons by auto
  show ?case using r r' by (cases r) auto
qed

lemma isolatedMember_ok:
  assumes "\<forall>k < N. seatAt v (chromGet c k) \<noteq> None"
    and "\<forall>q \<in> set members. seatAt v (chromGet c q) \<noteq> None"
    and "\<forall>q \<in> set ms. seatAt v (chromGet c q) \<noteq> None"
  shows "\<exists>r. isolatedMember v c N members ms = Inr r"
  using assms(3)
proof (induction ms)
  case Nil
  then show ?case by simp
next
  case (Cons m ms)
  have "seatAt v (chromGet c m) \<noteq> None" using Cons.prems by simp
  then obtain b where b: "hasNeighbor v c m (seatAt v (chromGet c m)) members = Inr b"
    using hasNeighbor_ok[OF _ assms(2)] by blast
  obtain r where r: "findSwapPartner v c N members m members = Inr r"
    using findSwapPartner_ok[OF assms(1,2)] by blast
  obtain r' where r': "isolatedMember v c N members ms = Inr r'" using Cons by auto
  show ?case using b r r' by (cases b; cases r) auto
qed

lemma weakGroup_ok:
  assumes "\<forall>k < N. seatAt v (chromGet c k) \<noteq> None"
    and "\<forall>x \<in> set gs. \<forall>m \<in> set (snd x). seatAt v (chromGet c m) \<noteq> None"
  shows "\<exists>r. weakGroup (Some v) c N gs = Inr r"
  using assms(2)
proof (induction gs)
  case Nil
  then show ?case by simp
next
  case (Cons x gs)
  obtain g members where x: "x = (g, members)" by (cases x)
  have "\<forall>q \<in> set members. seatAt v (chromGet c q) \<noteq> None" using Cons.prems by (simp add: x)
  then obtain r where r: "isolatedMember v c N members members = Inr r"
    using isolatedMember_ok[OF assms(1)] by blast
  obtain r' where r': "weakGroup (Some v) c N gs = Inr r'" using Cons by auto
  show ?case using r r' by (cases r) (auto simp: x)
qed

lemma findWeakArea_ok:
  assumes "prepared st R C V raws"
    and seat: "\<And>i. i < length raws \<Longrightarrow> seatAt (mkVenue R C V) (chromGet c i) \<noteq> None"
  shows "\<exists>r. findWeakArea st c fit = Inr r"
proof -
  let ?v = "mkVenue R C V"
  have v: "venue st = Some ?v" using assms(1) by (simp add: prepared_def setVenue_def)
  have len: "length (attendees st) = length raws"
    using assms(1) by (simp add: prepared_def setAttendees_length)
  have en: "\<forall>x \<in> set (enumerate 0 (attendees st)). seatAt ?v (chromGet c (fst x)) \<noteq> None"
    using seat len by (auto simp: in_set_enumerate_eq)
  obtain r1 where r1: "findVipSwap st c = Inr r1"
    using vipOuter_ok[OF en en] by (auto simp: findVipSwap_def v)
  have "\<forall>x \<in> set (groups st). \<forall>m \<in> set (snd x). seatAt ?v (chromGet c m) \<noteq> None"
    using setAttendees_groups_range[of _ st raws] assms(1) seat by (auto simp: prepared_def)
  then obtain r2 where r2: "weakGroup (venue st) c (length (attendees st)) (groups st) = Inr r2"
    using weakGroup_ok[of "length (attendees st)" ?v c "groups st"] seat len v by auto
  show ?thesis using r1 r2 by (cases r1) (auto simp: findWeakArea_def)
qed

lemma saNeighbor_seatable:
  assumes "0 \<le> R" "prepared st R C V raws" "seatable (R * C) (length raws) c"
  shows "\<exists>c' k'. saNeighbor st rs k c fit = Inr (c', k') \<and> seatable (R * C) (length raws) c'"
proof -
  have len: "length (attendees st) = length raws"
    using assms(2) by (simp add: prepared_def setAttendees_length)
  obtain r where r: "findWeakArea st c fit = Inr r"
    using findWeakArea_ok[OF assms(2) seatable_seatAt[OF assms(1,3)]] by blast
  have rnd: "seatable (R * C) (length raws) (randomSwap rs (k + 1) c)"
    using assms(3) randomSwap_valid[of "R * C" "length raws" c rs "k + 1"]
    by (auto simp: seatable_def)
  show ?thesis
  proof (cases "Rep_rand (rs k) < 0.5")
    case False
    then show ?thesis using rnd by (simp add: saNeighbor_def)
  next
    case True
    show ?thesis
    proof (cases r)
      case None
      then show ?thesis using True r rnd by (simp add: saNeighbor_def)
    next
      case (Some ij)
      obtain i j where ij: "ij = (i, j)" by (cases ij)
      have grp: "\<forall>x \<in> set (groups st). \<forall>m \<in> set (snd x). m < length (attendees st)"
        using setAttendees_groups_range[of _ st raws] assms(2) len by (auto simp: prepared_def)
      have range: "i < length raws \<and> j < length raws"
        using findWeakArea_range[OF _ grp, of c fit i j] r Some ij len by simp
      have "seatable (R * C) (length raws) (arrSwap c i j)"
      proof (cases "length raws = 0")
        case True
        then show ?thesis by (simp add: seatable_def)
      next
        case False
        then have valid: "validAssignment (R * C) (length raws) c"
          using assms(3) by (simp add: seatable_def)
        then have "length c = length raws" by (simp add: validAssignment_def)
        then have "arrSwap c i j = c[i := c ! j, j := c ! i]"
          using range by (simp add: arrSwap_in_range)
        then show ?thesis using validAssignment_swap[OF valid] range by (simp add: seatable_def)
      qed
      then show ?thesis using True r Some ij by (simp add: saNeighbor_def)
    qed
  qed
qed

lemma saAccept_inv:
  assumes "saInv st n N t0 s" "seatable n N nb" "calculateFitness st nb = Inr nf"
    and "validWeights (weights (config st))"
    and "saAccept rs k s nb nf cool = (s', k')"
  shows "saInv st n N t0 s'"
proof -
  obtain tn where tn: "total nf = Num tn" using calculateFitness_Num[OF assms(3,4)] by blast
  obtain tb where tb: "total (bestFit s) = Num tb" "t0 \<le> tb" using assms(1) by (auto simp: saInv_def)
  show ?thesis
    using assms(1,2,3,5) tn tb
    by (auto simp: saAccept_def saInv_def Let_def split: if_splits)
qed

lemma saLoop_inv:
  assumes "0 \<le> R" "prepared st R C V raws" "validWeights (weights (config st))"
    and "saInv st (R * C) (length raws) t0 s"
  shows "\<exists>s' k'. saLoop st rs n k s = Inr (s', k') \<and> saInv st (R * C) (length raws) t0 s'"
  using assms(4)
proof (induction n arbitrary: k s)
  case 0
  then show ?case by simp
next
  case (Suc n)
  show ?case
  proof (cases "temp s > minTemp (config st)")
    case False
    then show ?thesis using Suc.prems by simp
  next
    case True
    have cur: "seatable (R * C) (length raws) (current s)" using Suc.prems by (simp add: saInv_def)
    obtain nb k1 where nb: "saNeighbor st rs k (current s) (currentFitness s) = Inr (nb, k1)"
      and nbs: "seatable (R * C) (length raws) nb"
      using saNeighbor_seatable[OF assms(1,2) cur] by blast
    obtain nf where nf: "calculateFitness st nb = Inr nf"
      using seatable_fitness_ok[OF assms(1,2) nbs] by blast
    obtain s1 k2 where acc: "saAccept rs k1 s nb nf (coolingRate (config st)) = (s1, k2)"
      by (cases "saAccept rs k1 s nb nf (coolingRate (config st))")
    have "saInv st (R * C) (length raws) t0 s1"
      using saAccept_inv[OF Suc.prems nbs nf assms(3) acc] .
    from Suc.IH[OF this, of k2] show ?thesis using True nb nf acc by simp
  qed
qed

lemma simulatedAnnealing_ok:
  assumes "0 \<le> R" "prepared st R C V raws" "validWeights (weights (config st))"
    and "seatable (R * C) (length raws) c"
  shows "\<exists>f0 t0 r k' t. calculateFitness st c = Inr f0 \<and> total f0 = Num t0
           \<and> simulatedAnnealing st rs k c iterations = Inr (r, k')
           \<and> total (sa_fitness r) = Num t \<and> t0 \<le> t
           \<and> calculateFitness st (sa_chromosome r) = Inr (sa_fitness r)
           \<and> seatable (R * C) (length raws) (sa_chromosome r)"
proof -
  obtain f0 where f0: "calculateFitness st c = Inr f0"
    using seatable_fitness_ok[OF assms(1,2,4)] by blast
  obtain t0 where t0: "total f0 = Num t0" using calculateFitness_Num[OF f0 assms(3)] by blast
  let ?s0 = "\<lparr>current = c, currentFitness = f0, best = c, bestFit = f0,
                  temp = initialTemp (config st)\<rparr>"
  have "saInv st (R * C) (length raws) t0 ?s0" using assms(4) f0 t0 by (simp add: saInv_def)
  from saLoop_inv[OF assms(1,2,3) this, of rs iterations k]
  obtain s' k' where l: "saLoop st rs iterations k ?s0 = Inr (s', k')"
    and inv: "saInv st (R * C) (length raws) t0 s'" by blast
  show ?thesis using f0 t0 l inv by (auto simp: simulatedAnnealing_def saInv_def)
qed


subsection \<open>The generation loop and the fitness history\<close>

lemma mapFitness_set:
  "mapFitness st cs = Inr fs \<Longrightarrow> f \<in> set fs \<Longrightarrow> \<exists>c. calculateFitness st c = Inr f"
proof (induction cs arbitrary: fs)
  case Nil
  then show ?case by simp
next
  case (Cons c cs)
  then show ?case by (auto split: sum.splits)
qed

lemma mapFitness_length: "mapFitness st cs = Inr fs \<Longrightarrow> length fs = length cs"
  by (induction cs arbitrary: fs) (auto split: sum.splits)

lemma nondecreasing_snoc:
  assumes "nondecreasing h" "\<forall>x \<in> set h. \<exists>t. x = Num t \<and> t \<le> b"
  shows "nondecreasing (h @ [Num b])"
  unfolding nondecreasing_def
proof (intro allI impI)
  fix k assume k: "k + 1 < length (h @ [Num b])"
  show "js_ge ((h @ [Num b]) ! (k + 1)) ((h @ [Num b]) ! k)"
  proof (cases "k + 1 < length h")
    case True
    then show ?thesis using assms(1) by (simp add: nondecreasing_def nth_append)
  next
    case False
    then have e: "k + 1 = length h" using k by simp
    then have "h ! k \<in> set h" by simp
    then obtain t where "h ! k = Num t" "t \<le> b" using assms(2) by blast
    then show ?thesis using e by (simp add: nth_append js_ge_def)
  qed
qed

lemma updateBest_step:
  assumes "bestTotal (bestFitness s) = Num b" "\<forall>x \<in> set xs. \<exists>t. total (snd x) = Num t"
  shows "\<exists>b'. bestTotal (bestFitness (foldl (\<lambda>s (c, f).
              if js_gt (total f) (bestTotal (bestFitness s))
              then s\<lparr>bestSolution := Some c, bestFitness := Fitness f\<rparr>
              else s) s xs)) = Num b' \<and> b \<le> b'
        \<and> fitnessHistory (foldl (\<lambda>s (c, f).
              if js_gt (total f) (bestTotal (bestFitness s))
              then s\<lparr>bestSolution := Some c, bestFitness := Fitness f\<rparr>
              else s) s xs) = fitnessHistory s"
  using assms
proof (induction xs arbitrary: s b)
  case Nil
  then show ?case by simp
next
  case (Cons x xs)
  obtain c f where x: "x = (c, f)" by (cases x)
  obtain t where t: "total f = Num t" using Cons.prems(2) by (auto simp: x)
  let ?s1 = "if js_gt (total f) (bestTotal (bestFitness s))
              then s\<lparr>bestSolution := Some c, bestFitness := Fitness f\<rparr> else s"
  have 1: "\<exists>b1. bestTotal (bestFitness ?s1) = Num b1 \<and> b \<le> b1"
    using Cons.prems(1) t by auto
  then obtain b1 where b1: "bestTotal (bestFitness ?s1) = Num b1" "b \<le> b1" by blast
  have h: "fitnessHistory ?s1 = fitnessHistory s" by simp
  from Cons.IH[OF b1(1)] Cons.prems(2)
  obtain b' where "bestTotal (bestFitness (foldl (\<lambda>s (c, f).
              if js_gt (total f) (bestTotal (bestFitness s))
              then s\<lparr>bestSolution := Some c, bestFitness := Fitness f\<rparr>
              else s) ?s1 xs)) = Num b'" "b1 \<le> b'"
       "fitnessHistory (foldl (\<lambda>s (c, f).
              if js_gt (total f) (bestTotal (bestFitness s))
              then s\<lparr>bestSolution := Some c, bestFitness := Fitness f\<rparr>
              else s) ?s1 xs) = fitnessHistory ?s1"
    by auto
  then show ?case using b1(2) h by (simp add: x) 
qed

lemma updateBest_inv:
  assumes "bestTotal (bestFitness s) = Num b" "\<forall>f \<in> set fs. \<exists>t. total f = Num t"
  shows "\<exists>b'. bestTotal (bestFitness (updateBest s cs fs)) = Num b' \<and> b \<le> b'
        \<and> fitnessHistory (updateBest s cs fs) = fitnessHistory s"
  unfolding updateBest_def
  using assms(2) by (intro updateBest_step[OF assms(1)]) (auto dest: set_zip_rightD)

lemma updateBest_config: "config (updateBest s cs fs) = config s"
proof -
  have "config (foldl (\<lambda>s (c, f).
              if js_gt (total f) (bestTotal (bestFitness s))
              then s\<lparr>bestSolution := Some c, bestFitness := Fitness f\<rparr>
              else s) s xs) = config s" for xs
    by (induction xs arbitrary: s) (auto split: prod.splits)
  then show ?thesis by (simp add: updateBest_def)
qed

lemma generation_inv:
  assumes "generation st rs gen k pop fv = Some (st', Inr ((pop', fv'), k'))"
    and "historyInv st" "validWeights (weights (config st))"
  shows "historyInv st' \<and> config st' = config st"
proof -
  let ?st1 = "st\<lparr>currentGeneration := int gen\<rparr>"
  from assms(1) have fv': "mapFitness ?st1 pop' = Inr fv'"
    and st': "st' = (updateBest ?st1 pop' fv')\<lparr>fitnessHistory :=
        fitnessHistory (updateBest ?st1 pop' fv') @ [bestTotal (bestFitness (updateBest ?st1 pop' fv'))]\<rparr>"
    by (auto simp: generation_def Let_def split: sum.splits option.splits prod.splits)
  obtain b where b: "bestTotal (bestFitness st) = Num b"
    and hb: "\<forall>x \<in> set (fitnessHistory st). \<exists>t. x = Num t \<and> t \<le> b"
    and nd: "nondecreasing (fitnessHistory st)"
    using assms(2) by (auto simp: historyInv_def)
  have w: "validWeights (weights (config ?st1))" using assms(3) by simp
  have num: "\<forall>f \<in> set fv'. \<exists>t. total f = Num t"
    using mapFitness_set[OF fv'] calculateFitness_Num[OF _ w] by blast
  have b1: "bestTotal (bestFitness ?st1) = Num b" using b by simp
  from updateBest_inv[OF b1 num, of pop']
  obtain b' where b': "bestTotal (bestFitness (updateBest ?st1 pop' fv')) = Num b'" "b \<le> b'"
    and h: "fitnessHistory (updateBest ?st1 pop' fv') = fitnessHistory st" by auto
  have hb': "\<forall>x \<in> set (fitnessHistory st). \<exists>t. x = Num t \<and> t \<le> b'"
    using hb b'(2) by fastforce
  have "nondecreasing (fitnessHistory st @ [Num b'])"
    using nondecreasing_snoc[OF nd hb'] .
  then have "historyInv st'"
    using st' b' h hb' by (auto simp: historyInv_def)
  moreover have "config st' = config st" using st' by (simp add: updateBest_config)
  ultimately show ?thesis by simp
qed

lemma generationLoop_inv:
  assumes "generationLoop rs stops n gen k st pop fv = Some (st', Inr k')"
    and "historyInv st" "validWeights (weights (config st))"
  shows "historyInv st' \<and> config st' = config st"
  using assms
proof (induction n arbitrary: gen k st pop fv)
  case 0
  then show ?case by simp
next
  case (Suc n)
  show ?case
  proof (cases "isRunning st")
    case False
    then show ?thesis using Suc.prems by simp
  next
    case True
    from Suc.prems(1) True obtain st1 pop1 fv1 k1 where
      g: "generation st rs gen k pop fv = Some (st1, Inr ((pop1, fv1), k1))"
      and rest: "generationLoop rs stops n (Suc gen) k1
                  (if stops gen then st1\<lparr>isRunning := False\<rparr> else st1) pop1 fv1 = Some (st', Inr k')"
      by (auto split: option.splits sum.splits prod.splits)
    have i1: "historyInv st1" "config st1 = config st"
      using generation_inv[OF g Suc.prems(2,3)] by simp_all
    let ?s = "if stops gen then st1\<lparr>isRunning := False\<rparr> else st1"
    have "historyInv ?s" using i1(1) by (simp add: historyInv_def)
    moreover have "validWeights (weights (config ?s))" using i1(2) Suc.prems(3) by simp
    ultimately have "historyInv st' \<and> config st' = config ?s" using Suc.IH[OF rest] by simp
    then show ?thesis using i1(2) by simp
  qed
qed

lemma polish_inv: "historyInv s \<Longrightarrow> (\<exists>t. total (sa_fitness r) = Num t) \<Longrightarrow> historyInv (polish s r)"
  by (fastforce simp: historyInv_def polish_def)

lemma saAccept_bestFit:
  assumes "saAccept rs k s nb nf cool = (s', k')"
  shows "bestFit s' = bestFit s \<or> bestFit s' = nf"
  using assms by (auto simp: saAccept_def Let_def split: if_splits)

lemma saLoop_Num:
  assumes "saLoop st rs n k s = Inr (s', k')" "validWeights (weights (config st))"
    and "\<exists>t. total (bestFit s) = Num t"
  shows "\<exists>t. total (bestFit s') = Num t"
  using assms(1,3)
proof (induction n arbitrary: k s)
  case 0
  then show ?case by simp
next
  case (Suc n)
  show ?case
  proof (cases "temp s > minTemp (config st)")
    case False
    then show ?thesis using Suc.prems by simp
  next
    case True
    from Suc.prems(1) True obtain nb k1 nf s1 k2 where
      nf: "calculateFitness st nb = Inr nf"
      and acc: "saAccept rs k1 s nb nf (coolingRate (config st)) = (s1, k2)"
      and rest: "saLoop st rs n k2 s1 = Inr (s', k')"
      by (auto split: sum.splits prod.splits)
    have "\<exists>t. total (bestFit s1) = Num t"
      using saAccept_bestFit[OF acc] Suc.prems(2) calculateFitness_Num[OF nf assms(2)] by auto
    then show ?thesis using Suc.IH[OF rest] by simp
  qed
qed

lemma simulatedAnnealing_Num:
  assumes "simulatedAnnealing st rs k c n = Inr (r, k')" "validWeights (weights (config st))"
  shows "\<exists>t. total (sa_fitness r) = Num t"
proof -
  from assms(1) obtain f s where f: "calculateFitness st c = Inr f"
    and l: "saLoop st rs n k \<lparr>current = c, currentFitness = f, best = c, bestFit = f,
                  temp = initialTemp (config st)\<rparr> = Inr (s, k')"
    and r: "r = \<lparr>sa_chromosome = best s, sa_fitness = bestFit s\<rparr>"
    by (auto simp: simulatedAnnealing_def split: sum.splits prod.splits)
  have "\<exists>t. total (bestFit s) = Num t"
    using saLoop_Num[OF l assms(2)] calculateFitness_Num[OF f assms(2)] by simp
  then show ?thesis using r by simp
qed

lemma bestIndex_less: "fv \<noteq> [] \<Longrightarrow> bestIndex fv < length fv"
proof -
  have "foldl (\<lambda>bestIdx i.
              if js_gt (total (fv ! i)) (total (fv ! bestIdx)) then i
              else bestIdx) b xs < length fv"
    if "b < length fv" "\<forall>x \<in> set xs. x < length fv" for b xs
    using that by (induction xs arbitrary: b) auto
  from this[of 0 "[1..<length fv]"] show "fv \<noteq> [] \<Longrightarrow> bestIndex fv < length fv"
    by (simp add: bestIndex_def)
qed

lemma finish_inv:
  assumes "finish st rs k = (st', Inr r)" "historyInv st" "validWeights (weights (config st))"
  shows "historyInv st' \<and> history r = fitnessHistory st'"
proof (cases "isRunning st")
  case False
  then show ?thesis using assms by (auto simp: finish_def Let_def resultOf_def historyInv_def)
next
  case True
  with assms(1) obtain b refined k' where
    sa: "simulatedAnnealing st rs k b (saIterations st) = Inr (refined, k')"
    and st': "st' = (polish st refined)\<lparr>isRunning := False\<rparr>" and r: "r = resultOf st'"
    by (auto simp: finish_def Let_def split: option.splits sum.splits prod.splits)
  have "historyInv (polish st refined)"
    using polish_inv[OF assms(2)] simulatedAnnealing_Num[OF sa assms(3)] by simp
  then show ?thesis using st' r by (simp add: historyInv_def resultOf_def)
qed

lemma optimize_history:
  assumes "optimize st rs stops = Some (st', Inr r)" "validWeights (weights (config st))"
  shows "historyInv st' \<and> history r = fitnessHistory st'"
proof -
  let ?st1 = "st\<lparr>isRunning := True, fitnessHistory := []\<rparr>"
  from assms(1) obtain pop k fv st3 k' where
    fv: "mapFitness ?st1 pop = Inr fv" and ne: "pop \<noteq> []"
    and loop: "generationLoop rs stops
        (totalGenerations (?st1\<lparr>bestSolution := Some (pop ! bestIndex fv),
                                           bestFitness := Fitness (fv ! bestIndex fv)\<rparr>)) 0 k
        (?st1\<lparr>bestSolution := Some (pop ! bestIndex fv),
                                           bestFitness := Fitness (fv ! bestIndex fv)\<rparr>) pop fv
        = Some (st3, Inr k')"
    and fin: "finish st3 rs k' = (st', Inr r)"
    by (auto simp: optimize_def Let_def split: if_splits sum.splits option.splits prod.splits)
  let ?st2 = "?st1\<lparr>bestSolution := Some (pop ! bestIndex fv),
                                           bestFitness := Fitness (fv ! bestIndex fv)\<rparr>"
  have w1: "validWeights (weights (config ?st1))" using assms(2) by simp
  have "fv \<noteq> []" using mapFitness_length[OF fv] ne by auto
  then have "fv ! bestIndex fv \<in> set fv" using bestIndex_less by simp
  then obtain t where "total (fv ! bestIndex fv) = Num t"
    using mapFitness_set[OF fv] calculateFitness_Num[OF _ w1] by blast
  then have i2: "historyInv ?st2" by (simp add: historyInv_def nondecreasing_def)
  have w2: "validWeights (weights (config ?st2))" using assms(2) by simp
  have i3: "historyInv st3" "config st3 = config ?st2"
    using generationLoop_inv[OF loop i2 w2] by simp_all
  have w3: "validWeights (weights (config st3))" using i3(2) assms(2) by simp
  show ?thesis using finish_inv[OF fin i3(1) w3] .
qed


lemma mapFitness_server_eq: "mapFitness_server st cs = mapFitness st cs"
  by (induction cs) (simp_all add: calculateFitness_server_is_browser split: sum.splits)

lemma saLoop_server_inv:
  assumes "0 \<le> R" "prepared st R C V raws" "validWeights (weights (config st))"
    and "saInv st (R * C) (length raws) t0 s"
  shows "\<exists>s' k'. saLoop_server st rs n k s = Inr (s', k') \<and> saInv st (R * C) (length raws) t0 s'"
  using assms(4)
proof (induction n arbitrary: k s)
  case 0
  then show ?case by simp
next
  case (Suc n)
  show ?case
  proof (cases "temp s > minTemp (config st)")
    case False
    then show ?thesis using Suc.prems by simp
  next
    case True
    have cur: "seatable (R * C) (length raws) (current s)" using Suc.prems by (simp add: saInv_def)
    let ?nb = "randomSwap rs k (current s)"
    have nbs: "seatable (R * C) (length raws) ?nb"
      using cur randomSwap_valid[of "R * C" "length raws" "current s" rs k]
      by (auto simp: seatable_def)
    obtain nf where nf: "calculateFitness st ?nb = Inr nf"
      using seatable_fitness_ok[OF assms(1,2) nbs] by blast
    obtain s1 k2 where acc: "saAccept rs (k + 2) s ?nb nf (coolingRate (config st)) = (s1, k2)"
      by (cases "saAccept rs (k + 2) s ?nb nf (coolingRate (config st))")
    have "saInv st (R * C) (length raws) t0 s1"
      using saAccept_inv[OF Suc.prems nbs nf assms(3) acc] .
    from Suc.IH[OF this, of k2] show ?thesis
      using True nf acc by (simp add: calculateFitness_server_is_browser)
  qed
qed

lemma simulatedAnnealing_server_ok:
  assumes "0 \<le> R" "prepared st R C V raws" "validWeights (weights (config st))"
    and "seatable (R * C) (length raws) c"
  shows "\<exists>f0 t0 r k' t. calculateFitness_server st c = Inr f0 \<and> total f0 = Num t0
           \<and> simulatedAnnealing_server st rs k c iterations = Inr (r, k')
           \<and> total (sa_fitness r) = Num t \<and> t0 \<le> t
           \<and> calculateFitness_server st (sa_chromosome r) = Inr (sa_fitness r)
           \<and> seatable (R * C) (length raws) (sa_chromosome r)"
proof -
  obtain f0 where f0: "calculateFitness st c = Inr f0"
    using seatable_fitness_ok[OF assms(1,2,4)] by blast
  obtain t0 where t0: "total f0 = Num t0" using calculateFitness_Num[OF f0 assms(3)] by blast
  let ?s0 = "\<lparr>current = c, currentFitness = f0, best = c, bestFit = f0,
                  temp = initialTemp (config st)\<rparr>"
  have "saInv st (R * C) (length raws) t0 ?s0" using assms(4) f0 t0 by (simp add: saInv_def)
  from saLoop_server_inv[OF assms(1,2,3) this, of rs iterations k]
  obtain s' k' where l: "saLoop_server st rs iterations k ?s0 = Inr (s', k')"
    and inv: "saInv st (R * C) (length raws) t0 s'" by blast
  show ?thesis using f0 t0 l inv
    by (auto simp: simulatedAnnealing_server_def saInv_def calculateFitness_server_is_browser)
qed

lemma saLoop_server_Num:
  assumes "saLoop_server st rs n k s = Inr (s', k')" "validWeights (weights (config st))"
    and "\<exists>t. total (bestFit s) = Num t"
  shows "\<exists>t. total (bestFit s') = Num t"
  using assms(1,3)
proof (induction n arbitrary: k s)
  case 0
  then show ?case by simp
next
  case (Suc n)
  show ?case
  proof (cases "temp s > minTemp (config st)")
    case False
    then show ?thesis using Suc.prems by simp
  next
    case True
    from Suc.prems(1) True obtain nf s1 k2 where
      nf: "calculateFitness st (randomSwap rs k (current s)) = Inr nf"
      and acc: "saAccept rs (k + 2) s (randomSwap rs k (current s)) nf (coolingRate (config st)) = (s1, k2)"
      and rest: "saLoop_server st rs n k2 s1 = Inr (s', k')"
      by (auto simp: calculateFitness_server_is_browser split: sum.splits prod.splits)
    have "\<exists>t. total (bestFit s1) = Num t"
      using saAccept_bestFit[OF acc] Suc.prems(2) calculateFitness_Num[OF nf assms(2)] by auto
    then show ?thesis using Suc.IH[OF rest] by simp
  qed
qed

lemma simulatedAnnealing_server_Num:
  assumes "simulatedAnnealing_server st rs k c n = Inr (r, k')" "validWeights (weights (config st))"
  shows "\<exists>t. total (sa_fitness r) = Num t"
proof -
  from assms(1) obtain f s where f: "calculateFitness st c = Inr f"
    and l: "saLoop_server st rs n k \<lparr>current = c, currentFitness = f, best = c, bestFit = f,
                  temp = initialTemp (config st)\<rparr> = Inr (s, k')"
    and r: "r = \<lparr>sa_chromosome = best s, sa_fitness = bestFit s\<rparr>"
    by (auto simp: simulatedAnnealing_server_def calculateFitness_server_is_browser
        split: sum.splits prod.splits)
  have "\<exists>t. total (bestFit s) = Num t"
    using saLoop_server_Num[OF l assms(2)] calculateFitness_Num[OF f assms(2)] by simp
  then show ?thesis using r by simp
qed

lemma generation_server_inv:
  assumes "generation_server st rs gen k pop fv = Some (st', Inr ((pop', fv'), k'))"
    and "historyInv st" "validWeights (weights (config st))"
  shows "historyInv st' \<and> config st' = config st"
proof -
  let ?st1 = "st\<lparr>currentGeneration := int gen\<rparr>"
  from assms(1) have fv': "mapFitness ?st1 pop' = Inr fv'"
    and st': "st' = (updateBest ?st1 pop' fv')\<lparr>fitnessHistory :=
        fitnessHistory (updateBest ?st1 pop' fv') @ [bestTotal (bestFitness (updateBest ?st1 pop' fv'))]\<rparr>"
    by (auto simp: generation_server_def mapFitness_server_eq Let_def
        split: sum.splits option.splits prod.splits)
  obtain b where b: "bestTotal (bestFitness st) = Num b"
    and hb: "\<forall>x \<in> set (fitnessHistory st). \<exists>t. x = Num t \<and> t \<le> b"
    and nd: "nondecreasing (fitnessHistory st)"
    using assms(2) by (auto simp: historyInv_def)
  have w: "validWeights (weights (config ?st1))" using assms(3) by simp
  have num: "\<forall>f \<in> set fv'. \<exists>t. total f = Num t"
    using mapFitness_set[OF fv'] calculateFitness_Num[OF _ w] by blast
  have b1: "bestTotal (bestFitness ?st1) = Num b" using b by simp
  from updateBest_inv[OF b1 num, of pop']
  obtain b' where b': "bestTotal (bestFitness (updateBest ?st1 pop' fv')) = Num b'" "b \<le> b'"
    and h: "fitnessHistory (updateBest ?st1 pop' fv') = fitnessHistory st" by auto
  have hb': "\<forall>x \<in> set (fitnessHistory st). \<exists>t. x = Num t \<and> t \<le> b'"
    using hb b'(2) by fastforce
  have "nondecreasing (fitnessHistory st @ [Num b'])"
    using nondecreasing_snoc[OF nd hb'] .
  then have "historyInv st'"
    using st' b' h hb' by (auto simp: historyInv_def)
  moreover have "config st' = config st" using st' by (simp add: updateBest_config)
  ultimately show ?thesis by simp
qed

lemma generationLoop_server_inv:
  assumes "generationLoop_server rs n gen k st pop fv = Some (st', Inr k')"
    and "historyInv st" "validWeights (weights (config st))"
  shows "historyInv st' \<and> config st' = config st"
  using assms
proof (induction n arbitrary: gen k st pop fv)
  case 0
  then show ?case by simp
next
  case (Suc n)
  from Suc.prems(1) obtain st1 pop1 fv1 k1 where
    g: "generation_server st rs gen k pop fv = Some (st1, Inr ((pop1, fv1), k1))"
    and rest: "generationLoop_server rs n (Suc gen) k1 st1 pop1 fv1 = Some (st', Inr k')"
    by (auto split: option.splits sum.splits prod.splits)
  have i1: "historyInv st1" "config st1 = config st"
    using generation_server_inv[OF g Suc.prems(2,3)] by simp_all
  have "validWeights (weights (config st1))" using i1(2) Suc.prems(3) by simp
  then have "historyInv st' \<and> config st' = config st1" using Suc.IH[OF rest i1(1)] by simp
  then show ?case using i1(2) by simp
qed

lemma finish_server_inv:
  assumes "finish_server st rs k = (st', Inr r)" "historyInv st" "validWeights (weights (config st))"
  shows "historyInv st' \<and> history r = fitnessHistory st'"
proof -
  from assms(1) obtain b refined k' where
    sa: "simulatedAnnealing_server st rs k b (saIterations st) = Inr (refined, k')"
    and st': "st' = polish st refined" and r: "r = resultOf st'"
    by (auto simp: finish_server_def split: option.splits sum.splits prod.splits)
  have "historyInv (polish st refined)"
    using polish_inv[OF assms(2)] simulatedAnnealing_server_Num[OF sa assms(3)] by simp
  then show ?thesis using st' r by (simp add: resultOf_def)
qed

lemma optimize_server_history:
  assumes "optimize_server st rs = Some (st', Inr r)" "validWeights (weights (config st))"
  shows "historyInv st' \<and> history r = fitnessHistory st'"
proof -
  let ?st1 = "st\<lparr>isRunning := True, fitnessHistory := []\<rparr>"
  from assms(1) obtain pop k fv st3 k' where
    fv: "mapFitness ?st1 pop = Inr fv" and ne: "pop \<noteq> []"
    and loop: "generationLoop_server rs
        (totalGenerations (?st1\<lparr>bestSolution := Some (pop ! bestIndex fv),
                                           bestFitness := Fitness (fv ! bestIndex fv)\<rparr>)) 0 k
        (?st1\<lparr>bestSolution := Some (pop ! bestIndex fv),
                                           bestFitness := Fitness (fv ! bestIndex fv)\<rparr>) pop fv
        = Some (st3, Inr k')"
    and fin: "finish_server st3 rs k' = (st', Inr r)"
    by (auto simp: optimize_server_def mapFitness_server_eq Let_def
        split: if_splits sum.splits option.splits prod.splits)
  let ?st2 = "?st1\<lparr>bestSolution := Some (pop ! bestIndex fv),
                                           bestFitness := Fitness (fv ! bestIndex fv)\<rparr>"
  have w1: "validWeights (weights (config ?st1))" using assms(2) by simp
  have "fv \<noteq> []" using mapFitness_length[OF fv] ne by auto
  then have "fv ! bestIndex fv \<in> set fv" using bestIndex_less by simp
  then obtain t where "total (fv ! bestIndex fv) = Num t"
    using mapFitness_set[OF fv] calculateFitness_Num[OF _ w1] by blast
  then have i2: "historyInv ?st2" by (simp add: historyInv_def nondecreasing_def)
  have w2: "validWeights (weights (config ?st2))" using assms(2) by simp
  have i3: "historyInv st3" "config st3 = config ?st2"
    using generationLoop_server_inv[OF loop i2 w2] by simp_all
  have w3: "validWeights (weights (config st3))" using i3(2) assms(2) by simp
  show ?thesis using finish_server_inv[OF fin i3(1) w3] .
qed


subsection \<open>A run on the one-seat venue\<close>

lemma calculateFitness_cong:
  assumes "venue s = venue t" "attendees s = attendees t" "groups s = groups t"
    "friendships s = friendships t" "weights (config s) = weights (config t)"
  shows "calculateFitness s c = calculateFitness t c"
  unfolding calculateFitness_def assms ..

lemma js_gt_irrefl: "\<not> js_gt x x"
  by (cases x) simp_all

lemma js_gt_asym: "js_gt x y \<Longrightarrow> \<not> js_gt y x"
  by (cases x; cases y) simp_all

lemma saLoop_cold: "\<not> temp s > minTemp (config st) \<Longrightarrow> saLoop st rs n k s = Inr (s, k)"
  by (cases n) simp_all

lemma saLoop_server_cold:
  "\<not> temp s > minTemp (config st) \<Longrightarrow> saLoop_server st rs n k s = Inr (s, k)"
  by (cases n) simp_all

lemma solo_config:
  "populationSize (config solo) = 1" "elitismCount (config solo) = 1"
  "generations (config solo) = 2" "initialTemp (config solo) = 1" "minTemp (config solo) = 1"
  "mode (config solo) = None"
  by (simp_all add: solo_def setAttendees_def setVenue_def SeatOptimizer_def newOptimizer_def
      newConfig_def soloOptions_def noOptions_def orDefault_def Let_def)

lemma solo_weights: "validWeights (weights (config solo))"
  by (simp add: solo_def setAttendees_def setVenue_def SeatOptimizer_def newOptimizer_def
      newConfig_def newWeights_def soloOptions_def noOptions_def orDefault_def validWeights_def Let_def)

lemma solo_prepared: "prepared solo 1 1 1 [guest ''regular'' None]"
  by (simp add: prepared_def solo_def setAttendees_def setVenue_def Let_def)

lemma solo_venue: "venue solo = Some (mkVenue 1 1 1)"
  by (simp add: solo_def setAttendees_def setVenue_def Let_def)

lemma solo_attendees: "attendees solo = [mkAttendee 0 (guest ''regular'' None)]"
  by (simp add: solo_def setAttendees_def Let_def enumerate_eq_zip)

lemma solo_fitness: "\<exists>f. calculateFitness solo [Some 0] = Inr f"
proof -
  have "validAssignment (1 * 1) (length [guest ''regular'' None]) [Some 0]"
    by (simp add: validAssignment_def)
  from calculateFitness_ok[OF _ solo_prepared this] show ?thesis by simp
qed

lemma solo_initial:
  "initializePopulation (solo\<lparr>isRunning := True, fitnessHistory := []\<rparr>) rs 0 = Inr ([[Some 0]], 0)"
  by (simp add: initializePopulation_def solo_config generateRandomChromosome_def solo_venue
      solo_attendees mkVenue_def shuffleArray_def)

lemma generation_solo:
  assumes same: "venue s = venue solo" "attendees s = attendees solo" "groups s = groups solo"
      "friendships s = friendships solo" "config s = config solo"
    and best: "bestFitness s = Fitness f"
    and f: "calculateFitness solo [Some 0] = Inr f"
  shows "generation s rs gen k [[Some 0]] [f]
         = Some (s\<lparr>currentGeneration := int gen,
                    fitnessHistory := fitnessHistory s @ [total f]\<rparr>,
                 Inr (([[Some 0]], [f]), k))"
proof -
  let ?s1 = "s\<lparr>currentGeneration := int gen\<rparr>"
  have cf: "calculateFitness ?s1 [Some 0] = Inr f"
    using calculateFitness_cong[of ?s1 solo "[Some 0]"] same f by simp
  have el: "elites ?s1 (sortByFitness (zip [[Some 0]] [f])) = Inr [[Some 0]]"
    by (simp add: elites_def sortByFitness_def same solo_config)
  have br: "breed ?s1 rs (nat (populationSize (config ?s1) - int (length [[Some (0::int)]]))) k
              [[Some 0]] [f] [[Some 0]] = Some (Inr ([[Some 0]], k))"
    by (simp add: same solo_config)
  have mf: "mapFitness ?s1 [[Some 0]] = Inr [f]" using cf by simp
  have ub: "updateBest ?s1 [[Some 0]] [f] = ?s1"
    by (simp add: updateBest_def best js_gt_irrefl)
  show ?thesis
    unfolding generation_def Let_def el
    using br ub by (simp add: cf best same solo_config)
qed

lemma solo_run:
  assumes f: "calculateFitness solo [Some 0] = Inr f"
  shows "optimize solo rng0 noStops
         = Some (solo\<lparr>isRunning := False, fitnessHistory := [total f, total f],
                      bestSolution := Some [Some 0], bestFitness := Fitness f,
                      currentGeneration := 1\<rparr>,
                 Inr \<lparr>solution = Some [Some 0], fitnessOf = Fitness f,
                      history = [total f, total f]\<rparr>)"
proof -
  let ?s1 = "solo\<lparr>isRunning := True, fitnessHistory := []\<rparr>"
  let ?s2 = "?s1\<lparr>bestSolution := Some [Some 0], bestFitness := Fitness f\<rparr>"
  have cf1: "calculateFitness ?s1 [Some 0] = Inr f"
    using calculateFitness_cong[of ?s1 solo "[Some 0]"] f by simp
  have mf: "mapFitness ?s1 [[Some 0]] = Inr [f]" using cf1 by simp
  have bi: "bestIndex [f] = 0" by (simp add: bestIndex_def)
  have tg: "totalGenerations ?s2 = 2" by (simp add: totalGenerations_def solo_config)
  let ?s3 = "?s2\<lparr>currentGeneration := 0, fitnessHistory := [total f]\<rparr>"
  let ?s4 = "?s3\<lparr>currentGeneration := 1, fitnessHistory := [total f, total f]\<rparr>"
  have g0: "generation ?s2 rng0 0 0 [[Some 0]] [f] = Some (?s3, Inr (([[Some 0]], [f]), 0))"
    using generation_solo[of ?s2 f rng0 0 0] f by simp
  have g1: "generation ?s3 rng0 (Suc 0) 0 [[Some 0]] [f] = Some (?s4, Inr (([[Some 0]], [f]), 0))"
    using generation_solo[of ?s3 f rng0 "Suc 0" 0] f by simp
  have loop: "generationLoop rng0 noStops 2 0 0 ?s2 [[Some 0]] [f] = Some (?s4, Inr 0)"
    using g0 g1 by (simp add: numeral_2_eq_2 noStops_def)
  have cf4: "calculateFitness ?s4 [Some 0] = Inr f"
    using calculateFitness_cong[of ?s4 solo "[Some 0]"] f by simp
  have sa: "simulatedAnnealing ?s4 rng0 0 [Some 0] (saIterations ?s4)
            = Inr (\<lparr>sa_chromosome = [Some 0], sa_fitness = f\<rparr>, 0)"
    using cf4 by (simp add: simulatedAnnealing_def saLoop_cold solo_config)
  have fin: "finish ?s4 rng0 0
         = (?s4\<lparr>isRunning := False\<rparr>,
                 Inr \<lparr>solution = Some [Some 0], fitnessOf = Fitness f,
                      history = [total f, total f]\<rparr>)"
    using sa by (simp add: finish_def polish_def js_gt_irrefl resultOf_def Let_def)
  have "optimize solo rng0 noStops = Some (finish ?s4 rng0 0)"
    using mf tg loop
    by (simp add: optimize_def Let_def solo_venue solo_attendees solo_initial bi)
  then show ?thesis using fin by simp
qed

lemma solo_initial_server:
  "initializePopulation_server (solo\<lparr>isRunning := True, fitnessHistory := []\<rparr>) rs 0
     = Inr ([[Some 0]], 0)"
  by (simp add: initializePopulation_server_def solo_config generateRandomChromosome_def solo_venue
      solo_attendees mkVenue_def shuffleArray_def)

lemma generation_server_solo:
  assumes same: "venue s = venue solo" "attendees s = attendees solo" "groups s = groups solo"
      "friendships s = friendships solo" "config s = config solo"
    and best: "bestFitness s = Fitness f"
    and f: "calculateFitness solo [Some 0] = Inr f"
  shows "generation_server s rs gen k [[Some 0]] [f]
         = Some (s\<lparr>currentGeneration := int gen,
                    fitnessHistory := fitnessHistory s @ [total f]\<rparr>,
                 Inr (([[Some 0]], [f]), k))"
proof -
  let ?s1 = "s\<lparr>currentGeneration := int gen\<rparr>"
  have cf: "calculateFitness ?s1 [Some 0] = Inr f"
    using calculateFitness_cong[of ?s1 solo "[Some 0]"] same f by simp
  have el: "elites ?s1 (sortByFitness (zip [[Some 0]] [f])) = Inr [[Some 0]]"
    by (simp add: elites_def sortByFitness_def same solo_config)
  have br: "breed_server ?s1 rs (nat (populationSize (config ?s1) - int (length [[Some (0::int)]]))) k
              [[Some 0]] [f] [[Some 0]] = Some (Inr ([[Some 0]], k))"
    by (simp add: same solo_config)
  have ub: "updateBest ?s1 [[Some 0]] [f] = ?s1"
    by (simp add: updateBest_def best js_gt_irrefl)
  show ?thesis
    unfolding generation_server_def Let_def el
    using br ub by (simp add: mapFitness_server_eq cf best same solo_config)
qed

lemma solo_run_server:
  assumes f: "calculateFitness solo [Some 0] = Inr f"
  shows "optimize_server solo rng0
         = Some (solo\<lparr>isRunning := True, fitnessHistory := [total f, total f],
                      bestSolution := Some [Some 0], bestFitness := Fitness f,
                      currentGeneration := 1\<rparr>,
                 Inr \<lparr>solution = Some [Some 0], fitnessOf = Fitness f,
                      history = [total f, total f]\<rparr>)"
proof -
  let ?s1 = "solo\<lparr>isRunning := True, fitnessHistory := []\<rparr>"
  let ?s2 = "?s1\<lparr>bestSolution := Some [Some 0], bestFitness := Fitness f\<rparr>"
  have cf1: "calculateFitness ?s1 [Some 0] = Inr f"
    using calculateFitness_cong[of ?s1 solo "[Some 0]"] f by simp
  have mf: "mapFitness_server ?s1 [[Some 0]] = Inr [f]"
    using cf1 by (simp add: mapFitness_server_eq)
  have bi: "bestIndex [f] = 0" by (simp add: bestIndex_def)
  have tg: "totalGenerations ?s2 = 2" by (simp add: totalGenerations_def solo_config)
  let ?s3 = "?s2\<lparr>currentGeneration := 0, fitnessHistory := [total f]\<rparr>"
  let ?s4 = "?s3\<lparr>currentGeneration := 1, fitnessHistory := [total f, total f]\<rparr>"
  have g0: "generation_server ?s2 rng0 0 0 [[Some 0]] [f] = Some (?s3, Inr (([[Some 0]], [f]), 0))"
    using generation_server_solo[of ?s2 f rng0 0 0] f by simp
  have g1: "generation_server ?s3 rng0 (Suc 0) 0 [[Some 0]] [f]
            = Some (?s4, Inr (([[Some 0]], [f]), 0))"
    using generation_server_solo[of ?s3 f rng0 "Suc 0" 0] f by simp
  have loop: "generationLoop_server rng0 2 0 0 ?s2 [[Some 0]] [f] = Some (?s4, Inr 0)"
    using g0 g1 by (simp add: numeral_2_eq_2)
  have cf4: "calculateFitness ?s4 [Some 0] = Inr f"
    using calculateFitness_cong[of ?s4 solo "[Some 0]"] f by simp
  have sa: "simulatedAnnealing_server ?s4 rng0 0 [Some 0] (saIterations ?s4)
            = Inr (\<lparr>sa_chromosome = [Some 0], sa_fitness = f\<rparr>, 0)"
    using cf4 by (simp add: simulatedAnnealing_server_def calculateFitness_server_is_browser
        saLoop_server_cold solo_config)
  have fin: "finish_server ?s4 rng0 0
         = (?s4, Inr \<lparr>solution = Some [Some 0], fitnessOf = Fitness f,
                      history = [total f, total f]\<rparr>)"
    using sa by (simp add: finish_server_def polish_def js_gt_irrefl resultOf_def Let_def)
  have "optimize_server solo rng0 = Some (finish_server ?s4 rng0 0)"
    using mf tg loop
    by (simp add: optimize_server_def Let_def solo_venue solo_attendees solo_initial_server bi)
  then show ?thesis using fin by simp
qed


lemma polish_never_lowers:
  assumes "bestTotal (bestFitness s) \<noteq> NaN" "total (sa_fitness refined) \<noteq> NaN"
  shows "js_ge (bestTotal (bestFitness (polish s refined))) (bestTotal (bestFitness s))"
  using assms js_gt_irrefl js_gt_asym by (auto simp: polish_def js_ge_def)



section \<open>The annealer never regresses\<close>

lemma club_weights: "validWeights (weights (config club))"
  by (simp add: club_def setAttendees_def setVenue_def SeatOptimizer_def newOptimizer_def
      newConfig_def newWeights_def noOptions_def orDefault_def validWeights_def Let_def)

text \<open>
  Claim C10. For an optimizer prepared by \<^verbatim>\<open>setVenue\<close> and \<^verbatim>\<open>setAttendees\<close> with valid weights, every
  valid assignment \<open>c\<close>, every iteration count and every random sequence, \<^verbatim>\<open>simulatedAnnealing\<close>
  returns (in the browser file and in the server file), the total of the fitness it returns is
  greater than or equal to the total of \<^verbatim>\<open>calculateFitness\<close> on \<open>c\<close>, and the fitness it returns is the
  fitness of the chromosome it returns. The polish at the end of \<^verbatim>\<open>optimize\<close> replaces the best
  fitness only by a strictly larger total, so the best total after it is never below the best
  total before it.
\<close>

theorem simulatedAnnealing_never_regresses:
  assumes "0 \<le> R" "prepared st R C V raws" "validWeights (weights (config st))"
    and "validAssignment (R * C) (length raws) c"
  shows "(\<exists>f0 r k'. calculateFitness st c = Inr f0
            \<and> simulatedAnnealing st rs k c iterations = Inr (r, k')
            \<and> js_ge (total (sa_fitness r)) (total f0)
            \<and> calculateFitness st (sa_chromosome r) = Inr (sa_fitness r))
       \<and> (\<exists>f0 r k'. calculateFitness_server st c = Inr f0
            \<and> simulatedAnnealing_server st rs k c iterations = Inr (r, k')
            \<and> js_ge (total (sa_fitness r)) (total f0)
            \<and> calculateFitness_server st (sa_chromosome r) = Inr (sa_fitness r))
       \<and> (\<forall>s refined. bestTotal (bestFitness s) \<noteq> NaN \<and> total (sa_fitness refined) \<noteq> NaN \<longrightarrow>
            js_ge (bestTotal (bestFitness (polish s refined))) (bestTotal (bestFitness s)))"
proof -
  have s: "seatable (R * C) (length raws) c" using assms(4) by (simp add: seatable_def)
  from simulatedAnnealing_ok[OF assms(1,2,3) s, of rs k iterations]
  have 1: "\<exists>f0 r k'. calculateFitness st c = Inr f0
            \<and> simulatedAnnealing st rs k c iterations = Inr (r, k')
            \<and> js_ge (total (sa_fitness r)) (total f0)
            \<and> calculateFitness st (sa_chromosome r) = Inr (sa_fitness r)"
    by (fastforce simp: js_ge_def)
  from simulatedAnnealing_server_ok[OF assms(1,2,3) s, of rs k iterations]
  have 2: "\<exists>f0 r k'. calculateFitness_server st c = Inr f0
            \<and> simulatedAnnealing_server st rs k c iterations = Inr (r, k')
            \<and> js_ge (total (sa_fitness r)) (total f0)
            \<and> calculateFitness_server st (sa_chromosome r) = Inr (sa_fitness r)"
    by (fastforce simp: js_ge_def)
  show ?thesis using 1 2 polish_never_lowers by blast
qed

theorem simulatedAnnealing_never_regresses_witness:
  "(0::int) \<le> 2 \<and> prepared club 2 5 1 clubGuests \<and> validWeights (weights (config club))
   \<and> validAssignment (2 * 5) (length clubGuests) clubSeating
   \<and> (\<exists>f0 r k'. calculateFitness club clubSeating = Inr f0
          \<and> simulatedAnnealing club rng0 0 clubSeating 3 = Inr (r, k')
          \<and> js_ge (total (sa_fitness r)) (total f0)
          \<and> js_ge (bestTotal (bestFitness (polish (club\<lparr>bestFitness := Fitness f0\<rparr>) r))) (total f0))
   \<and> (\<exists>f0 r k'. calculateFitness_server club clubSeating = Inr f0
          \<and> simulatedAnnealing_server club rng0 0 clubSeating 3 = Inr (r, k')
          \<and> js_ge (total (sa_fitness r)) (total f0))"
proof -
  note inst = simulatedAnnealing_never_regresses[OF _ club_prepared club_weights club_valid,
      of rng0 0 3, simplified]
  from inst[THEN conjunct1] obtain f0 r k' where
    a: "calculateFitness club clubSeating = Inr f0"
       "simulatedAnnealing club rng0 0 clubSeating 3 = Inr (r, k')"
       "js_ge (total (sa_fitness r)) (total f0)"
    by (elim exE conjE)
  have nn: "bestTotal (bestFitness (club\<lparr>bestFitness := Fitness f0\<rparr>)) \<noteq> NaN
            \<and> total (sa_fitness r) \<noteq> NaN"
    using a(3) by (simp add: js_ge_def)
  have p: "js_ge (bestTotal (bestFitness (polish (club\<lparr>bestFitness := Fitness f0\<rparr>) r))) (total f0)"
    using inst[THEN conjunct2, THEN conjunct2, rule_format, OF nn] by simp
  have b: "\<exists>f0 r k'. calculateFitness_server club clubSeating = Inr f0
          \<and> simulatedAnnealing_server club rng0 0 clubSeating 3 = Inr (r, k')
          \<and> js_ge (total (sa_fitness r)) (total f0)"
    using inst[THEN conjunct2, THEN conjunct1] by (elim exE conjE) (intro exI conjI)
  have c: "\<exists>f0 r k'. calculateFitness club clubSeating = Inr f0
          \<and> simulatedAnnealing club rng0 0 clubSeating 3 = Inr (r, k')
          \<and> js_ge (total (sa_fitness r)) (total f0)
          \<and> js_ge (bestTotal (bestFitness (polish (club\<lparr>bestFitness := Fitness f0\<rparr>) r))) (total f0)"
    using a p by (intro exI conjI)
  show ?thesis using club_prepared club_weights club_valid b c by simp
qed

section \<open>The fitness history\<close>

text \<open>
  Claim C6. Within one call of \<^verbatim>\<open>optimize\<close> (browser file and server file) on an optimizer with valid
  weights, the fitness history returned is non-decreasing: for every index \<open>k\<close> with \<open>k + 1\<close> in
  range, entry \<open>k + 1\<close> is greater than or equal to entry \<open>k\<close>. Each entry is the best total at the
  end of a generation, and \<^verbatim>\<open>bestFitness\<close> is only replaced by a strictly larger total.
\<close>

theorem fitness_history_nondecreasing:
  assumes "validWeights (weights (config st))"
  shows "(\<forall>st' r. optimize st rs stops = Some (st', Inr r) \<longrightarrow>
            (\<forall>k. k + 1 < length (history r) \<longrightarrow> js_ge (history r ! (k + 1)) (history r ! k)))
       \<and> (\<forall>st' r. optimize_server st rs = Some (st', Inr r) \<longrightarrow>
            (\<forall>k. k + 1 < length (history r) \<longrightarrow> js_ge (history r ! (k + 1)) (history r ! k)))"
proof (intro conjI allI impI)
  fix st' r k
  assume run: "optimize st rs stops = Some (st', Inr r)" and k: "k + 1 < length (history r)"
  have "nondecreasing (history r)"
    using optimize_history[OF run assms] by (auto simp: historyInv_def)
  then show "js_ge (history r ! (k + 1)) (history r ! k)" using k by (simp add: nondecreasing_def)
next
  fix st' r k
  assume run: "optimize_server st rs = Some (st', Inr r)" and k: "k + 1 < length (history r)"
  have "nondecreasing (history r)"
    using optimize_server_history[OF run assms] by (auto simp: historyInv_def)
  then show "js_ge (history r ! (k + 1)) (history r ! k)" using k by (simp add: nondecreasing_def)
qed

theorem fitness_history_nondecreasing_witness:
  "validWeights (weights (config solo))
   \<and> (\<exists>st' r. optimize solo rng0 noStops = Some (st', Inr r)
        \<and> length (history r) = 2 \<and> js_ge (history r ! 1) (history r ! 0))
   \<and> (\<exists>st' r. optimize_server solo rng0 = Some (st', Inr r)
        \<and> length (history r) = 2 \<and> js_ge (history r ! 1) (history r ! 0))"
proof -
  obtain f where f: "calculateFitness solo [Some 0] = Inr f" using solo_fitness by blast
  note inst = fitness_history_nondecreasing[OF solo_weights, of rng0 noStops]
  let ?r = "\<lparr>solution = Some [Some 0], fitnessOf = Fitness f, history = [total f, total f]\<rparr>"
  have a: "js_ge (history ?r ! (0 + 1)) (history ?r ! 0)"
    using inst[THEN conjunct1, rule_format, OF solo_run[OF f], of 0] by simp
  have b: "js_ge (history ?r ! (0 + 1)) (history ?r ! 0)"
    using inst[THEN conjunct2, rule_format, OF solo_run_server[OF f], of 0] by simp
  show ?thesis
    using solo_weights solo_run[OF f] solo_run_server[OF f] a b by simp
qed

section \<open>The block swap of mutate\<close>

lemma club_rate: "adaptiveRate club = 3 / 10"
  by (simp add: adaptiveRate_def club_def setAttendees_def setVenue_def SeatOptimizer_def
      newOptimizer_def newConfig_def noOptions_def orDefault_def Let_def)

lemma club_mutate_draws:
  assumes "length (items a) = 4"
  shows "mutate club blockDraws 0 a = (blockSwap (jsSwap a 0 0) (- 1) 0 6, 7)"
proof -
  have len: "length (items (jsSwap a 0 0)) = 4"
    using assms by (simp add: jsSwap_def jsSet_def jsGet_def arrSet_def)
  have r: "Rep_rand (blockDraws 0) = 0" "Rep_rand (blockDraws (0 + 3)) = 0"
    by (simp_all add: blockDraws_def rngOf_def rand0.rep_eq)
  have l: "randomIndex blockDraws (0 + 4) 5 + 2 = 6"
    by (simp add: randomIndex_def blockDraws_def rngOf_def rand9.rep_eq)
  have "\<lfloor>- (1::real)\<rfloor> = - 1" by (simp add: floor_eq_iff)
  then have s1: "randomIndex blockDraws (0 + 5) (- 2) = - 1"
    by (simp add: randomIndex_def blockDraws_def rngOf_def randHalf.rep_eq)
  have s2: "randomIndex blockDraws (0 + 6) (- 2) = 0" "randomIndex blockDraws (0 + 1) 4 = 0"
    "randomIndex blockDraws (0 + 2) 4 = 0"
    by (simp_all add: randomIndex_def blockDraws_def rngOf_def rand0.rep_eq)
  show ?thesis
    using len r l s1 s2 assms by (simp add: mutate_def club_rate Let_def)
qed

lemma six: "[0..<6] = [0, 1, 2, 3, 4, 5::nat]"
  by (simp add: eval_nat_numeral upt_rec)

lemma club_block_swap:
  "items (fst (mutate club blockDraws 0 (newArray clubSeating)))
     = [Some 0, Some 9, Some 8, None, None, None]"
proof -
  have "length (items (newArray clubSeating)) = 4" by (simp add: newArray_def clubSeating_def)
  from club_mutate_draws[OF this] show ?thesis
    by (simp add: blockSwap_def six clubSeating_def newArray_def
      jsSwap_def jsSet_def jsGet_def arrSet_def chromGet_def)
qed

text \<open>
  Claim C1, at \<^verbatim>\<open>mutate\<close>: the claim says that the result of \<^verbatim>\<open>mutate\<close>, block swap included, is a
  sequence of \<open>N\<close> pairwise distinct seat positions in \<open>[0, R * C)\<close>. In the club (2 rows of 5 seats,
  4 attendees) the seating \<open>[5, 0, 9, 8]\<close> is such a sequence. With a block length of 6 the two starts
  are \<open>\<lfloor>0.5 * (4 - 6)\<rfloor> = -1\<close> and 0, the loop reads and writes indices -1 to 5, and the array
  \<^verbatim>\<open>mutate\<close> returns is \<open>[0, 9, 8, undefined, undefined, undefined]\<close>: six cells, seat 5 lost to the
  property \<open>-1\<close>, and attendee 3 without a seat.
\<close>

theorem mutate_block_swap_leaves_range:
  "validAssignment (2 * 5) (length clubGuests) clubSeating
   \<and> items (fst (mutate club blockDraws 0 (newArray clubSeating)))
       = [Some 0, Some 9, Some 8, None, None, None]
   \<and> \<not> validAssignment (2 * 5) (length clubGuests)
          (items (fst (mutate club blockDraws 0 (newArray clubSeating))))"
  using club_valid by (simp add: club_block_swap validAssignment_def clubGuests_def)

section \<open>The entry guard of optimize\<close>

lemma crowded_venue: "venue crowdedRun = Some (mkVenue 1 1 1)"
  by (simp add: crowdedRun_def crowded_def setAttendees_def setVenue_def Let_def)

lemma crowded_attendees:
  "attendees crowdedRun
     = [mkAttendee 0 (guest ''regular'' None), mkAttendee (Suc 0) (guest ''regular'' None)]"
  by (simp add: crowdedRun_def crowded_def setAttendees_def Let_def enumerate_eq_zip upt_rec_numeral)

lemma crowded_maps: "groups crowdedRun = []" "friendships crowdedRun = []"
  by (simp_all add: crowdedRun_def crowded_def setAttendees_def Let_def enumerate_eq_zip upt_rec_numeral
      buildGroups_def buildFriendships_def truthyGroup_def mkAttendee_def guest_def)

lemma crowded_config:
  "populationSize (config crowdedRun) = 100" "mutationRate (config crowdedRun) = 15 / 100"
  by (simp_all add: crowdedRun_def crowded_def setAttendees_def setVenue_def SeatOptimizer_def
      newOptimizer_def newConfig_def noOptions_def orDefault_def Let_def)

lemma crowded_start: "isRunning crowded = False \<and> fitnessHistory crowded = []"
  by (simp add: crowded_def setAttendees_def setVenue_def SeatOptimizer_def
      newOptimizer_def Let_def)

lemma crowded_rate: "0 < adaptiveRate crowdedRun"
  by (simp add: adaptiveRate_def crowded_config add_pos_pos)

lemma crowded_seats: "seats (mkVenue 1 1 1) = [mkSeat 1 1 0 0]" "totalSeats (mkVenue 1 1 1) = 1"
  by (simp_all add: mkVenue_def)

lemma crowded_greedy: "generateGreedySolution crowdedRun = Inr [Some 0, Some (- 1)]"
  by (simp add: generateGreedySolution_def crowded_venue crowded_attendees sortedIndices_def
      crowded_maps greedyKey_def groupSize_def truthyGroup_def mkAttendee_def guest_def
      crowded_seats seatAt_def seatScore_def arrSet_def Let_def)


lemma two: "[0..<2] = [0, 1::nat]"
  by (simp add: eval_nat_numeral upt_rec)

lemma jsSwap_same:
  assumes "length (items a) = 2"
  shows "jsSwap a 0 0 = a" "jsSwap a 1 1 = a"
  using assms by (simp_all add: jsSwap_def jsSet_def jsGet_def arrSet_def chromGet_def)

lemma mutate_rng0_pair:
  assumes "length (items a) = 2" "0 < adaptiveRate st"
  shows "mutate st rng0 k a = (a, k + 7)"
proof -
  have r: "\<And>n. Rep_rand (rng0 n) = 0" by (simp add: rng0_def rand0.rep_eq)
  have b: "blockSwap a 0 0 2 = a"
    using jsSwap_same[OF assms(1)] by (simp add: blockSwap_def two)
  show ?thesis
    using assms b jsSwap_same[OF assms(1)] by (simp add: mutate_def r randomIndex_def Let_def)
qed

lemma mutate_server_rng0_pair:
  assumes "length (items a) = 2" "0 < mutationRate (config st)"
  shows "mutate_server st rng0 k a = (a, k + 3)"
proof -
  have r: "\<And>n. Rep_rand (rng0 n) = 0" by (simp add: rng0_def rand0.rep_eq)
  show ?thesis
    using assms jsSwap_same[OF assms(1)] by (simp add: mutate_server_def r randomIndex_def Let_def)
qed

lemma mutateTimes_rng0_pair:
  assumes "length (items a) = 2" "0 < adaptiveRate st"
  shows "mutateTimes st rng0 n k a = (a, k + 7 * n)"
  using assms by (induction n arbitrary: k) (simp_all add: mutate_rng0_pair)

lemma mutateTimes_server_rng0_pair:
  assumes "length (items a) = 2" "0 < mutationRate (config st)"
  shows "mutateTimes_server st rng0 n k a = (a, k + 3 * n)"
  using assms by (induction n arbitrary: k) (simp_all add: mutate_server_rng0_pair)

lemma crowded_greedyPart:
  "greedyPart crowdedRun rng0 n k pop = Inr (pop @ replicate n [Some 0, Some (- 1)], k + 35 * n)"
proof (induction n arbitrary: k pop)
  case 0
  then show ?case by simp
next
  case (Suc n)
  have m: "mutateTimes crowdedRun rng0 5 k (newArray [Some 0, Some (- 1)])
           = (newArray [Some 0, Some (- 1)], k + 7 * 5)"
    by (rule mutateTimes_rng0_pair) (simp_all add: newArray_def crowded_rate)
  show ?case
    using Suc[of "k + 35" "pop @ [[Some 0, Some (- 1)]]"] m
    by (simp add: crowded_greedy newArray_def replicate_app_Cons_same)
qed

lemma crowded_greedyPart_server:
  "greedyPart_server crowdedRun rng0 n k pop
     = Inr (pop @ replicate n [Some 0, Some (- 1)], k + 15 * n)"
proof (induction n arbitrary: k pop)
  case 0
  then show ?case by simp
next
  case (Suc n)
  have m: "mutateTimes_server crowdedRun rng0 5 k (newArray [Some 0, Some (- 1)])
           = (newArray [Some 0, Some (- 1)], k + 3 * 5)"
    by (rule mutateTimes_server_rng0_pair) (simp_all add: newArray_def crowded_config)
  show ?case
    using Suc[of "k + 15" "pop @ [[Some 0, Some (- 1)]]"] m
    by (simp add: crowded_greedy newArray_def replicate_app_Cons_same)
qed

lemma crowded_randomPart:
  "randomPart crowdedRun rs n k pop = Inr (pop @ replicate n [Some 0], k)"
proof (induction n arbitrary: pop)
  case 0
  then show ?case by simp
next
  case (Suc n)
  have g: "generateRandomChromosome crowdedRun rs k = Inr ([Some 0], k)"
    by (simp add: generateRandomChromosome_def crowded_venue crowded_attendees crowded_seats
        shuffleArray_def)
  show ?case using Suc[of "pop @ [[Some 0]]"] by (simp add: g replicate_app_Cons_same)
qed

lemma crowded_population:
  "initializePopulation crowdedRun rng0 0
     = Inr (replicate 20 [Some 0, Some (- 1)] @ replicate 80 [Some 0], 700)"
  "initializePopulation_server crowdedRun rng0 0
     = Inr (replicate 20 [Some 0, Some (- 1)] @ replicate 80 [Some 0], 300)"
  by (simp_all add: initializePopulation_def initializePopulation_server_def crowded_config
      crowded_greedyPart crowded_greedyPart_server crowded_randomPart)

lemma crowded_fitness: "calculateFitness crowdedRun [Some 0, Some (- 1)] = Inl TypeError"
  by (simp add: calculateFitness_def crowded_venue crowded_maps crowded_attendees crowded_seats
      seatAt_def chromGet_def)

lemma crowded_mapFitness:
  "mapFitness crowdedRun (replicate 20 [Some 0, Some (- 1)] @ replicate 80 [Some 0]) = Inl TypeError"
  "mapFitness_server crowdedRun (replicate 20 [Some 0, Some (- 1)] @ replicate 80 [Some 0])
     = Inl TypeError"
proof -
  have "replicate 20 [Some (0::int), Some (- 1)] = [Some 0, Some (- 1)] # replicate 19 [Some 0, Some (- 1)]"
    by (simp add: eval_nat_numeral)
  then show "mapFitness crowdedRun (replicate 20 [Some 0, Some (- 1)] @ replicate 80 [Some 0]) = Inl TypeError"
    "mapFitness_server crowdedRun (replicate 20 [Some 0, Some (- 1)] @ replicate 80 [Some 0])
     = Inl TypeError"
    by (simp_all add: crowded_fitness calculateFitness_server_is_browser)
qed

lemma crowded_optimize:
  "optimize crowded rng0 noStops = Some (crowdedRun, Inl (Thrown TypeError))"
  "optimize_server crowded rng0 = Some (crowdedRun, Inl (Thrown TypeError))"
proof -
  have g: "venue crowded \<noteq> None \<and> attendees crowded \<noteq> []"
    using crowded_venue crowded_attendees by (simp add: crowdedRun_def)
  show "optimize crowded rng0 noStops = Some (crowdedRun, Inl (Thrown TypeError))"
    using g crowded_population(1) crowded_mapFitness(1)
    by (simp add: optimize_def Let_def crowdedRun_def)
  show "optimize_server crowded rng0 = Some (crowdedRun, Inl (Thrown TypeError))"
    using g crowded_population(2) crowded_mapFitness(2)
    by (simp add: optimize_server_def Let_def crowdedRun_def)
qed

lemma optimize_guard:
  "optimize st rs stops = Some (st', Inl ConfigError)
     \<longleftrightarrow> (venue st = None \<or> attendees st = []) \<and> st' = st"
  by (auto simp: optimize_def Let_def finish_def split: sum.splits option.splits prod.splits if_splits)

lemma optimize_server_guard:
  "optimize_server st rs = Some (st', Inl ConfigError)
     \<longleftrightarrow> (venue st = None \<or> attendees st = []) \<and> st' = st"
  by (auto simp: optimize_server_def Let_def finish_server_def
      split: sum.splits option.splits prod.splits if_splits)

text \<open>
  Claim C2, for more attendees than seats: the claim says that \<^verbatim>\<open>optimize\<close> raises at entry, before
  it changes the optimizer. The guard of \<^verbatim>\<open>optimize\<close> tests the venue and the attendee list only. With
  two guests and one seat, default options and the random sequence of zeros, both copies of
  \<^verbatim>\<open>optimize\<close> pass the guard, set \<^verbatim>\<open>isRunning\<close> and clear the history, build the population, and fail
  with a \<^verbatim>\<open>TypeError\<close> in the first \<^verbatim>\<open>calculateFitness\<close>, on the greedy chromosome \<open>[0, -1]\<close>;
  \<^verbatim>\<open>isRunning\<close> stays set.
\<close>

theorem optimize_over_capacity:
  "venue crowded = Some (mkVenue 1 1 1) \<and> totalSeats (mkVenue 1 1 1) = 1
   \<and> length (attendees crowded) = 2 \<and> isRunning crowded = False
   \<and> optimize crowded rng0 noStops
       = Some (crowded\<lparr>isRunning := True, fitnessHistory := []\<rparr>, Inl (Thrown TypeError))
   \<and> optimize_server crowded rng0
       = Some (crowded\<lparr>isRunning := True, fitnessHistory := []\<rparr>, Inl (Thrown TypeError))"
  using crowded_venue crowded_attendees crowded_start crowded_optimize
  by (simp add: crowdedRun_def crowded_seats)
end
